theory Spec2Isabelle
  imports Main "HOL-Library.Word"
begin

unbundle bit_operations_syntax

section \<open>UDP relay of go-shadowsocks2 (udp.go)\<close>

text \<open>
  The development follows \<^verbatim>\<open>udp.go\<close>: the role constants, the 64 KiB buffers, Go's slice
  and copy operations with their bounds checks, packet sockets with a read deadline, the
  copy loop \<^verbatim>\<open>timedCopy\<close>, the NAT table \<^verbatim>\<open>natmap\<close> and the three listener loops.
  A panic of the Go runtime and an error returned by a socket are values of the model.
\<close>

subsection \<open>Constants and basic types\<close>

type_synonym byte = "8 word"

text \<open>\<^verbatim>\<open>type mode int\<close> with \<^verbatim>\<open>remoteServer mode = iota\<close>, \<^verbatim>\<open>relayClient\<close>, \<^verbatim>\<open>socksClient\<close>.\<close>

datatype mode = remoteServer | relayClient | socksClient

definition udpBufSize :: nat where
  "udpBufSize = 64 * 1024"

text \<open>Run-time panics of Go that the code can raise.\<close>

datatype panic = SliceBoundsOutOfRange | SendOnClosedChannel | CloseOfClosedChannel

text \<open>Errors returned by socket operations (\<^verbatim>\<open>net.Error\<close>); only \<open>Timeout\<close> answers
  \<^verbatim>\<open>err.Timeout()\<close> with true.\<close>

datatype net_error = Timeout | ErrClosed | OtherError

text \<open>A \<^verbatim>\<open>socks.Addr\<close> is a byte slice; \<open>None\<close> is the nil slice, whose \<^verbatim>\<open>len\<close> is 0.\<close>

type_synonym Addr = "byte list option"

definition len_Addr :: "Addr \<Rightarrow> nat" where
  "len_Addr a = (case a of None \<Rightarrow> 0 | Some bs \<Rightarrow> length bs)"

definition bytes_Addr :: "Addr \<Rightarrow> byte list" where
  "bytes_Addr a = (case a of None \<Rightarrow> [] | Some bs \<Rightarrow> bs)"

subsection \<open>Go slices over a buffer\<close>

text \<open>
  \<^verbatim>\<open>b[lo:hi]\<close> on a slice whose length equals its capacity: the run time checks
  \<^verbatim>\<open>lo <= hi <= cap(b)\<close> and panics otherwise.
\<close>

definition slice :: "byte list \<Rightarrow> nat \<Rightarrow> nat \<Rightarrow> panic + byte list" where
  "slice b lo hi =
     (if lo \<le> hi \<and> hi \<le> length b then Inr (take (hi - lo) (drop lo b))
      else Inl SliceBoundsOutOfRange)"

text \<open>
  \<^verbatim>\<open>copy(b[off:], s)\<close> for \<^verbatim>\<open>off <= len(b)\<close>: copies \<^verbatim>\<open>min(len(b) - off, len(s))\<close> elements,
  also when source and destination overlap (the source is read as it was before the call).
\<close>

definition copy_at :: "byte list \<Rightarrow> nat \<Rightarrow> byte list \<Rightarrow> byte list" where
  "copy_at b off s =
     (let k = min (length b - off) (length s)
      in take off b @ take k s @ drop (off + k) b)"

subsection \<open>Packet sockets\<close>

text \<open>
  A \<^verbatim>\<open>net.PacketConn\<close> as the code uses it. \<open>inbound\<close> lists the datagrams that will reach
  the socket, each with its arrival time and source address; \<open>wresults\<close> scripts the outcome
  of the coming writes (none left: the write succeeds); \<open>outbound\<close> holds the datagrams
  written with the address they were sent to; \<open>calls\<close> logs the deadline, read and close
  calls in order. Time is an integer clock.
\<close>

datatype call = SetReadDeadlineCall int | ReadFromCall int | CloseCall

record 'a PacketConn =
  readDeadline :: "int option"
  inbound :: "(int \<times> byte list \<times> 'a) list"
  wresults :: "net_error option list"
  outbound :: "(byte list \<times> 'a) list"
  closed :: bool
  calls :: "call list"

definition SetReadDeadline :: "'a PacketConn \<Rightarrow> int \<Rightarrow> 'a PacketConn" where
  "SetReadDeadline c t =
     c\<lparr>readDeadline := Some t, calls := calls c @ [SetReadDeadlineCall t]\<rparr>"

datatype 'a read_result = ReadOk nat 'a | ReadErr net_error

text \<open>
  \<^verbatim>\<open>n, raddr, err := c.ReadFrom(buf)\<close> called at time \<open>now\<close>. A deadline that has passed
  fails the read at once; otherwise the read waits for the next datagram and fails with a
  timeout at the deadline when none arrives before it. The datagram is cut to the buffer.
  The result carries the socket, the clock and the buffer after the call; \<open>None\<close> is a read
  that never returns (no deadline and no datagram).
\<close>

definition stored :: "byte list \<Rightarrow> byte list \<Rightarrow> byte list" where
  "stored buf p = take (length buf) p @ drop (length p) buf"

definition ReadFrom ::
  "'a PacketConn \<Rightarrow> int \<Rightarrow> byte list \<Rightarrow>
   ('a read_result \<times> 'a PacketConn \<times> int \<times> byte list) option" where
  "ReadFrom c now buf =
     (let c' = c\<lparr>calls := calls c @ [ReadFromCall now]\<rparr> in
      if closed c then Some (ReadErr ErrClosed, c', now, buf)
      else case readDeadline c of
        Some d \<Rightarrow>
          if d \<le> now then Some (ReadErr Timeout, c', now, buf)
          else (case inbound c of
                  [] \<Rightarrow> Some (ReadErr Timeout, c', d, buf)
                | (t, p, a) # rest \<Rightarrow>
                    if t < d
                    then Some (ReadOk (min (length p) (length buf)) a,
                               c'\<lparr>inbound := rest\<rparr>, max now t, stored buf p)
                    else Some (ReadErr Timeout, c', d, buf))
      | None \<Rightarrow>
          (case inbound c of
             [] \<Rightarrow> None
           | (t, p, a) # rest \<Rightarrow>
               Some (ReadOk (min (length p) (length buf)) a,
                     c'\<lparr>inbound := rest\<rparr>, max now t, stored buf p)))"

text \<open>\<^verbatim>\<open>_, err = c.WriteTo(b, target)\<close>.\<close>

definition WriteTo ::
  "'a PacketConn \<Rightarrow> byte list \<Rightarrow> 'a \<Rightarrow> net_error option \<times> 'a PacketConn" where
  "WriteTo c b target =
     (if closed c then (Some ErrClosed, c)
      else case wresults c of
        [] \<Rightarrow> (None, c\<lparr>outbound := outbound c @ [(b, target)]\<rparr>)
      | None # rs \<Rightarrow> (None, c\<lparr>wresults := rs, outbound := outbound c @ [(b, target)]\<rparr>)
      | Some e # rs \<Rightarrow> (Some e, c\<lparr>wresults := rs\<rparr>))"

definition Close :: "'a PacketConn \<Rightarrow> 'a PacketConn" where
  "Close c = c\<lparr>closed := True, calls := calls c @ [CloseCall]\<rparr>"

subsection \<open>The copy loop\<close>

text \<open>
  The \<^verbatim>\<open>switch role\<close> of \<^verbatim>\<open>timedCopy\<close>, after a read of \<open>n\<close> bytes from \<open>raddr\<close> into
  \<open>buf\<close>: the datagram handed to \<^verbatim>\<open>dst.WriteTo\<close> and the buffer afterwards, or the panic of
  a slice expression. \<open>ParseAddr\<close> stands for \<^verbatim>\<open>socks.ParseAddr(raddr.String())\<close> and
  \<open>SplitAddr\<close> for \<^verbatim>\<open>socks.SplitAddr\<close>; package \<^verbatim>\<open>socks\<close> is imported by the file.
\<close>

definition timedCopy_switch ::
  "('a \<Rightarrow> Addr) \<Rightarrow> (byte list \<Rightarrow> Addr) \<Rightarrow> mode \<Rightarrow> byte list \<Rightarrow> nat \<Rightarrow> 'a \<Rightarrow>
   panic + (byte list \<times> byte list)" where
  "timedCopy_switch ParseAddr SplitAddr role buf n raddr =
     (case role of
        remoteServer \<Rightarrow>
          (let srcAddr = ParseAddr raddr in
           case slice buf (len_Addr srcAddr) (length buf) of
             Inl e \<Rightarrow> Inl e
           | Inr _ \<Rightarrow>
               (case slice buf 0 n of
                  Inl e \<Rightarrow> Inl e
                | Inr payload \<Rightarrow>
                    (let buf1 = copy_at buf (len_Addr srcAddr) payload;
                         buf2 = copy_at buf1 0 (bytes_Addr srcAddr)
                     in case slice buf2 0 (len_Addr srcAddr + n) of
                          Inl e \<Rightarrow> Inl e
                        | Inr d \<Rightarrow> Inr (d, buf2))))
      | relayClient \<Rightarrow>
          (case slice buf 0 n of
             Inl e \<Rightarrow> Inl e
           | Inr dgram \<Rightarrow>
               (let srcAddr = SplitAddr dgram in
                case slice buf (len_Addr srcAddr) n of
                  Inl e \<Rightarrow> Inl e
                | Inr d \<Rightarrow> Inr (d, buf)))
      | socksClient \<Rightarrow>
          (case slice buf 0 n of
             Inl e \<Rightarrow> Inl e
           | Inr payload \<Rightarrow> Inr ([0, 0, 0] @ payload, buf)))"

text \<open>
  The loop of \<^verbatim>\<open>timedCopy\<close>. It leaves with the error of a read or of a write, or with a
  panic; the result carries both sockets and the clock. \<open>None\<close>: the loop never returns.
\<close>

lemma ReadFrom_ok_inbound:
  "ReadFrom c now buf = Some (ReadOk n a, c', now', buf') \<Longrightarrow>
   length (inbound c') < length (inbound c)"
  by (auto simp: ReadFrom_def Let_def split: if_splits option.splits list.splits)

function timedCopy_loop ::
  "('a \<Rightarrow> Addr) \<Rightarrow> (byte list \<Rightarrow> Addr) \<Rightarrow> 'a PacketConn \<Rightarrow> 'a \<Rightarrow> 'a PacketConn \<Rightarrow>
   int \<Rightarrow> mode \<Rightarrow> int \<Rightarrow> byte list \<Rightarrow>
   ((panic + net_error) \<times> 'a PacketConn \<times> 'a PacketConn \<times> int) option" where
  "timedCopy_loop ParseAddr SplitAddr dst target src timeout role now buf =
     (case ReadFrom (SetReadDeadline src (now + timeout)) now buf of
        None \<Rightarrow> None
      | Some (ReadErr e, src', now', buf') \<Rightarrow> Some (Inr e, dst, src', now')
      | Some (ReadOk n raddr, src', now', buf') \<Rightarrow>
          (case timedCopy_switch ParseAddr SplitAddr role buf' n raddr of
             Inl p \<Rightarrow> Some (Inl p, dst, src', now')
           | Inr (d, buf'') \<Rightarrow>
               (case WriteTo dst d target of
                  (Some e, dst') \<Rightarrow> Some (Inr e, dst', src', now')
                | (None, dst') \<Rightarrow>
                    timedCopy_loop ParseAddr SplitAddr dst' target src' timeout role now' buf'')))"
  by pat_completeness auto
termination
proof (relation "measure (\<lambda>(P, S, dst, target, src, timeout, role, now, buf). length (inbound src))")
  show "wf (measure (\<lambda>(P, S, dst, target, src, timeout, role, now, buf). length (inbound src)))"
    by simp
next
  fix ParseAddr :: "'a \<Rightarrow> Addr" and SplitAddr :: "byte list \<Rightarrow> Addr"
    and dst :: "'a PacketConn" and target :: 'a and src :: "'a PacketConn"
    and timeout :: int and role :: mode and now :: int and buf :: "byte list"
    and x2 x1 y xa ya xb yb x1a x2a x2b xc yc xd yd x2c
  assume "ReadFrom (SetReadDeadline src (now + timeout)) now buf = Some x2"
    and "(x1, y) = x2" and "(xa, ya) = y" and "(xb, yb) = ya" and "x1 = ReadOk x1a x2a"
  then have "ReadFrom (SetReadDeadline src (now + timeout)) now buf
              = Some (ReadOk x1a x2a, xa, xb, yb)"
    by simp
  from ReadFrom_ok_inbound [OF this]
  show "((ParseAddr, SplitAddr, yd, target, xa, timeout, role, xb, x2c),
         (ParseAddr, SplitAddr, dst, target, src, timeout, role, now, buf))
        \<in> measure (\<lambda>(P, S, dst, target, src, timeout, role, now, buf). length (inbound src))"
    by (simp add: SetReadDeadline_def)
qed

text \<open>\<^verbatim>\<open>timedCopy\<close> allocates its buffer and enters the loop.\<close>

definition timedCopy ::
  "('a \<Rightarrow> Addr) \<Rightarrow> (byte list \<Rightarrow> Addr) \<Rightarrow> 'a PacketConn \<Rightarrow> 'a \<Rightarrow> 'a PacketConn \<Rightarrow>
   int \<Rightarrow> mode \<Rightarrow> int \<Rightarrow>
   ((panic + net_error) \<times> 'a PacketConn \<times> 'a PacketConn \<times> int) option" where
  "timedCopy ParseAddr SplitAddr dst target src timeout role now =
     timedCopy_loop ParseAddr SplitAddr dst target src timeout role now
       (replicate udpBufSize 0)"

declare timedCopy_loop.simps [simp del]

subsection \<open>The address codec\<close>

text \<open>
  Modelled from the spec: package \<^verbatim>\<open>socks\<close> (\<^verbatim>\<open>ParseAddr\<close>, \<^verbatim>\<open>SplitAddr\<close>, \<^verbatim>\<open>Addr.String\<close>) is
  imported by \<^verbatim>\<open>udp.go\<close> and is not among the sources. The spec calls it the SOCKS address
  wire format: a variable-length encoding of address type, address and port whose length
  is read off its first bytes. An address is kept here as that triple; its textual form
  (\<^verbatim>\<open>raddr.String()\<close>) is not modelled. Type 1 is an IPv4 address of 4 bytes, type 3 a
  domain name behind a length byte, type 4 an IPv6 address of 16 bytes; the port follows
  in two bytes, high byte first.
\<close>

datatype socks_host = IPv4 byte byte byte byte | DomainName "byte list" | IPv6 "byte list"

datatype socks_addr = SocksAddr socks_host "16 word"

definition port_bytes :: "16 word \<Rightarrow> byte list" where
  "port_bytes p = [ucast (drop_bit 8 p), ucast p]"

definition port_of_bytes :: "byte \<Rightarrow> byte \<Rightarrow> 16 word" where
  "port_of_bytes hi lo = push_bit 8 (ucast hi) OR ucast lo"

text \<open>Modelled from the spec: \<^verbatim>\<open>parse(textAddress) -> prefixBytes | nil\<close>, on the triple.\<close>

fun ParseAddr :: "socks_addr \<Rightarrow> Addr" where
  "ParseAddr (SocksAddr (IPv4 a b c d) p) = Some ([1, a, b, c, d] @ port_bytes p)"
| "ParseAddr (SocksAddr (DomainName h) p) =
     (if length h > 255 then None
      else Some ([3, of_nat (length h)] @ h @ port_bytes p))"
| "ParseAddr (SocksAddr (IPv6 bs) p) =
     (if length bs = 16 then Some ([4] @ bs @ port_bytes p) else None)"

text \<open>Modelled from the spec: \<^verbatim>\<open>split(datagramBytes)\<close>, the leading address prefix of a
  datagram, or nil when the leading bytes are not a valid prefix.\<close>

definition SplitAddr :: "byte list \<Rightarrow> Addr" where
  "SplitAddr b =
     (case b of
        [] \<Rightarrow> None
      | t # rest \<Rightarrow>
          if t = 3 then
            (case rest of
               [] \<Rightarrow> None
             | l # _ \<Rightarrow>
                 if length b < 1 + 1 + unat l + 2 then None
                 else Some (take (1 + 1 + unat l + 2) b))
          else if t = 1 then
            (if length b < 1 + 4 + 2 then None else Some (take (1 + 4 + 2) b))
          else if t = 4 then
            (if length b < 1 + 16 + 2 then None else Some (take (1 + 16 + 2) b))
          else None)"

text \<open>Modelled from the spec: \<^verbatim>\<open>toText(prefixBytes)\<close>, read back as the triple.\<close>

definition Addr_decode :: "byte list \<Rightarrow> socks_addr option" where
  "Addr_decode b =
     (case b of
        [] \<Rightarrow> None
      | t # rest \<Rightarrow>
          if t = 1 then
            (case rest of
               [a, b, c, d, hi, lo] \<Rightarrow> Some (SocksAddr (IPv4 a b c d) (port_of_bytes hi lo))
             | _ \<Rightarrow> None)
          else if t = 3 then
            (case rest of
               [] \<Rightarrow> None
             | l # r \<Rightarrow>
                 if length r = unat l + 2
                 then Some (SocksAddr (DomainName (take (unat l) r))
                              (port_of_bytes (r ! unat l) (r ! (unat l + 1))))
                 else None)
          else if t = 4 then
            (if length rest = 16 + 2
             then Some (SocksAddr (IPv6 (take 16 rest)) (port_of_bytes (rest ! 16) (rest ! 17)))
             else None)
          else None)"

subsection \<open>The NAT table\<close>

text \<open>
  A socket is held by reference: the listening socket of a loop, or a forwarding socket
  by its number in the list of sockets that \<^verbatim>\<open>net.ListenPacket\<close> has opened. The code
  stores and passes sockets that it has opened, never nil; nil is what a lookup in a
  table answers for a key that is not there (\<open>None\<close>).
\<close>

datatype sockref = ListenSock | FwdSock nat

text \<open>
  What a mutex and the table it guards see, in order: the lock operations and, between
  them, the accesses to the table by key.
\<close>

datatype mu_event = Lock | Unlock | RLock | RUnlock | Lookup string | Insert string | Delete string

text \<open>\<^verbatim>\<open>type natmap struct { sync.RWMutex; m map[string]net.PacketConn; timeout time.Duration }\<close>.
  Each method holds the lock from its first to its last statement, so each is one step;
  \<open>natmap_mu\<close> is the history of the embedded mutex.\<close>

record natmap =
  natmap_mu :: "mu_event list"
  natmap_m :: "string \<rightharpoonup> sockref"
  natmap_timeout :: int

definition newNATmap :: "int \<Rightarrow> natmap" where
  "newNATmap timeout = \<lparr>natmap_mu = [], natmap_m = Map.empty, natmap_timeout = timeout\<rparr>"

text \<open>\<^verbatim>\<open>m.RLock(); defer m.RUnlock(); return m.m[key]\<close>: the zero value nil for a key that
  is not in the map.\<close>

definition natmap_Get :: "natmap \<Rightarrow> string \<Rightarrow> sockref option \<times> natmap" where
  "natmap_Get nm key =
     (natmap_m nm key,
      nm\<lparr>natmap_mu := natmap_mu nm @ [RLock, Lookup key, RUnlock]\<rparr>)"

text \<open>\<^verbatim>\<open>m.Lock(); defer m.Unlock(); m.m[key] = pc\<close>.\<close>

definition natmap_Set :: "natmap \<Rightarrow> string \<Rightarrow> sockref \<Rightarrow> natmap" where
  "natmap_Set nm key pc =
     nm\<lparr>natmap_mu := natmap_mu nm @ [Lock, Insert key, Unlock],
        natmap_m := (natmap_m nm)(key \<mapsto> pc)\<rparr>"

text \<open>\<^verbatim>\<open>m.Lock(); defer m.Unlock(); pc, ok := m.m[key];
  if ok { delete(m.m, key); return pc }; return nil\<close>.\<close>

definition natmap_Del :: "natmap \<Rightarrow> string \<Rightarrow> sockref option \<times> natmap" where
  "natmap_Del nm key =
     (case natmap_m nm key of
        Some pc \<Rightarrow>
          (Some pc, nm\<lparr>natmap_mu := natmap_mu nm @ [Lock, Lookup key, Delete key, Unlock],
                  natmap_m := (natmap_m nm)(key := None)\<rparr>)
      | None \<Rightarrow> (None, nm\<lparr>natmap_mu := natmap_mu nm @ [Lock, Lookup key, Unlock]\<rparr>))"

text \<open>
  The goroutine that \<^verbatim>\<open>natmap.Add\<close> starts, by the arguments it closes over:
  \<^verbatim>\<open>timedCopy(dst, peer, src, m.timeout, role)\<close>, then \<^verbatim>\<open>Del\<close> and \<^verbatim>\<open>Close\<close>.
\<close>

record 'a reaper =
  reaper_peer :: 'a
  reaper_dst :: sockref
  reaper_src :: sockref
  reaper_role :: mode

text \<open>\<^verbatim>\<open>Add\<close>: \<^verbatim>\<open>m.Set(peer.String(), src)\<close> and the goroutine, returned for the scheduler.\<close>

definition natmap_Add ::
  "('a \<Rightarrow> string) \<Rightarrow> natmap \<Rightarrow> 'a \<Rightarrow> sockref \<Rightarrow> sockref \<Rightarrow> mode \<Rightarrow>
   natmap \<times> 'a reaper" where
  "natmap_Add String nm peer dst src role =
     (natmap_Set nm (String peer) src,
      \<lparr>reaper_peer = peer, reaper_dst = dst, reaper_src = src, reaper_role = role\<rparr>)"

text \<open>
  The arguments of a call as the source writes them, each with the type it has there, and
  the parameters of \<^verbatim>\<open>timedCopy(dst net.PacketConn, target net.Addr, src net.PacketConn,
  timeout time.Duration, role mode)\<close> bound to them: \<open>None\<close> when an argument is not of the
  type of its parameter.
\<close>

datatype 'a go_value =
    AddrV 'a
  | PacketConnV sockref
  | DurationV int
  | BoolV bool
  | ModeV mode

record 'a timedCopy_args =
  tc_dst :: sockref
  tc_target :: 'a
  tc_src :: sockref
  tc_timeout :: int
  tc_role :: mode

fun timedCopy_bind :: "'a go_value list \<Rightarrow> 'a timedCopy_args option" where
  "timedCopy_bind [PacketConnV dst, AddrV target, PacketConnV src, DurationV t, ModeV role] =
     Some \<lparr>tc_dst = dst, tc_target = target, tc_src = src, tc_timeout = t, tc_role = role\<rparr>"
| "timedCopy_bind _ = None"

text \<open>The call in the goroutine of \<^verbatim>\<open>natmap.Add\<close>: \<^verbatim>\<open>timedCopy(dst, peer, src, m.timeout, role)\<close>.\<close>

definition natmap_Add_call :: "natmap \<Rightarrow> 'a reaper \<Rightarrow> 'a go_value list" where
  "natmap_Add_call nm g =
     [PacketConnV (reaper_dst g), AddrV (reaper_peer g), PacketConnV (reaper_src g),
      DurationV (natmap_timeout nm), ModeV (reaper_role g)]"

subsection \<open>Two teardown paths on one table\<close>

text \<open>
  The teardown of \<^verbatim>\<open>natmap.Add\<close>, \<^verbatim>\<open>if pc := m.Del(key); pc != nil { pc.Close() }\<close>, as the
  steps of one thread: the call of \<^verbatim>\<open>Del\<close> under the lock, then the call of \<^verbatim>\<open>Close\<close> on
  what \<^verbatim>\<open>Del\<close> returned. \<open>closes\<close> counts the \<^verbatim>\<open>Close\<close> calls per forwarding socket.
\<close>

datatype teardown_pc = BeforeDel | AfterDel "sockref option" | Finished

record teardown_state =
  td_nm :: natmap
  td_closes :: "sockref \<Rightarrow> nat"
  td_first :: teardown_pc
  td_second :: teardown_pc

definition teardown_step ::
  "string \<Rightarrow> natmap \<times> (sockref \<Rightarrow> nat) \<times> teardown_pc \<Rightarrow>
   natmap \<times> (sockref \<Rightarrow> nat) \<times> teardown_pc" where
  "teardown_step key s =
     (case s of (nm, closes, pc) \<Rightarrow>
        (case pc of
           BeforeDel \<Rightarrow> (case natmap_Del nm key of (r, nm') \<Rightarrow> (nm', closes, AfterDel r))
         | AfterDel None \<Rightarrow> (nm, closes, Finished)
         | AfterDel (Some r) \<Rightarrow> (nm, closes(r := Suc (closes r)), Finished)
         | Finished \<Rightarrow> (nm, closes, Finished)))"

text \<open>A schedule names the thread that takes the next step (\<open>True\<close>: the first).\<close>

fun teardown_race :: "string \<Rightarrow> bool list \<Rightarrow> teardown_state \<Rightarrow> teardown_state" where
  "teardown_race key [] s = s"
| "teardown_race key (b # bs) s =
     (if b
      then (case teardown_step key (td_nm s, td_closes s, td_first s) of
              (nm, closes, pc) \<Rightarrow>
                teardown_race key bs (s\<lparr>td_nm := nm, td_closes := closes, td_first := pc\<rparr>))
      else (case teardown_step key (td_nm s, td_closes s, td_second s) of
              (nm, closes, pc) \<Rightarrow>
                teardown_race key bs (s\<lparr>td_nm := nm, td_closes := closes, td_second := pc\<rparr>)))"

text \<open>What is still to be closed: a constant of every step of a race.\<close>

definition td_pending :: "teardown_pc \<Rightarrow> sockref \<Rightarrow> nat" where
  "td_pending pc r = (if pc = AfterDel (Some r) then 1 else 0)"

definition td_bound :: "string \<Rightarrow> natmap \<Rightarrow> sockref \<Rightarrow> nat" where
  "td_bound key nm r = (if natmap_m nm key = Some r then 1 else 0)"

definition td_potential :: "string \<Rightarrow> sockref \<Rightarrow> teardown_state \<Rightarrow> nat" where
  "td_potential key r s =
     td_closes s r + td_pending (td_first s) r + td_pending (td_second s) r
       + td_bound key (td_nm s) r"

subsection \<open>The SOCKS5 local listener\<close>

text \<open>
  The state that the loop of \<^verbatim>\<open>udpSocksLocal\<close> works on: the listening socket \<^verbatim>\<open>c\<close>, the
  table \<^verbatim>\<open>nm\<close>, the one buffer \<^verbatim>\<open>buf\<close> allocated before the loop, the forwarding sockets
  opened so far, the goroutines started by \<^verbatim>\<open>nm.Add\<close>, the clock and the lines logged.
\<close>

datatype log_line =
    LocalReadError net_error
  | LocalListenError net_error
  | SocksTunnel
  | LocalWriteError net_error
  | CreateSocketFailed net_error
  | SplitFailed "byte list"
  | ResolveFailed
  | RemoteReadError net_error
  | RemoteWriteError net_error
  | TimedCopyError net_error

record 'a socksLocal =
  sl_c :: "'a PacketConn"
  sl_nm :: natmap
  sl_buf :: "byte list"
  sl_conns :: "'a PacketConn list"
  sl_reapers :: "'a reaper list"
  sl_now :: int
  sl_log :: "log_line list"

text \<open>\<^verbatim>\<open>pc.WriteTo(b, addr)\<close> through a reference. A reference is always to a socket that
  was opened; the last case cannot occur in a run and is there to keep the function total.\<close>

definition ref_WriteTo ::
  "'a PacketConn \<Rightarrow> 'a PacketConn list \<Rightarrow> sockref \<Rightarrow> byte list \<Rightarrow> 'a \<Rightarrow>
   net_error option \<times> 'a PacketConn \<times> 'a PacketConn list" where
  "ref_WriteTo c conns r b addr =
     (case r of
        ListenSock \<Rightarrow> (case WriteTo c b addr of (e, c') \<Rightarrow> (e, c', conns))
      | FwdSock i \<Rightarrow>
          if i < length conns
          then (case WriteTo (conns ! i) b addr of (e, pc') \<Rightarrow> (e, c, conns[i := pc']))
          else (Some ErrClosed, c, conns))"

text \<open>
  The end of an iteration: \<^verbatim>\<open>_, err = pc.WriteTo(buf[3:n], srvAddr)\<close> with its log line.
  The slice expression is evaluated before the call.
\<close>

definition udpSocksLocal_write ::
  "'a \<Rightarrow> 'a socksLocal \<Rightarrow> sockref \<Rightarrow> nat \<Rightarrow> panic + 'a socksLocal" where
  "udpSocksLocal_write srvAddr st pc n =
     (case slice (sl_buf st) 3 n of
        Inl p \<Rightarrow> Inl p
      | Inr d \<Rightarrow>
          (case ref_WriteTo (sl_c st) (sl_conns st) pc d srvAddr of
             (None, c', conns') \<Rightarrow> Inr (st\<lparr>sl_c := c', sl_conns := conns'\<rparr>)
           | (Some e, c', conns') \<Rightarrow>
               Inr (st\<lparr>sl_c := c', sl_conns := conns', sl_log := sl_log st @ [LocalWriteError e]\<rparr>)))"

text \<open>
  The start of an iteration: \<^verbatim>\<open>c.ReadFrom(buf)\<close>, then \<^verbatim>\<open>nm.Get(raddr.String())\<close>.
  \<open>String\<close> is \<^verbatim>\<open>raddr.String()\<close>. The result is the state and, unless the read failed
  (\<^verbatim>\<open>continue\<close>), the length, the peer and what \<^verbatim>\<open>Get\<close> returned; \<open>None\<close> is a read that
  never returns.
\<close>

definition udpSocksLocal_read ::
  "('a \<Rightarrow> string) \<Rightarrow> 'a socksLocal \<Rightarrow>
   ('a socksLocal \<times> (nat \<times> 'a \<times> sockref option) option) option" where
  "udpSocksLocal_read String st =
     (case ReadFrom (sl_c st) (sl_now st) (sl_buf st) of
        None \<Rightarrow> None
      | Some (ReadErr e, c', now', buf') \<Rightarrow>
          Some (st\<lparr>sl_c := c', sl_now := now', sl_buf := buf',
                    sl_log := sl_log st @ [LocalReadError e]\<rparr>, None)
      | Some (ReadOk n raddr, c', now', buf') \<Rightarrow>
          (case natmap_Get (sl_nm st) (String raddr) of
             (pc, nm') \<Rightarrow>
               Some (st\<lparr>sl_c := c', sl_now := now', sl_buf := buf', sl_nm := nm'\<rparr>,
                     Some (n, raddr, pc))))"

text \<open>
  The branch \<^verbatim>\<open>if pc == nil\<close>: \<open>listen\<close> is what \<^verbatim>\<open>net.ListenPacket("udp", "")\<close> answers (an
  error, or the new socket); \<^verbatim>\<open>shadow\<close> returns the socket it wraps; the log line takes
  \<^verbatim>\<open>buf[3:]\<close>; \<^verbatim>\<open>nm.Add(raddr, c, pc, socksClient)\<close> stores the socket and starts the goroutine.
  The result is the state and the socket to write to, or no socket (\<^verbatim>\<open>continue\<close>).
\<close>

definition udpSocksLocal_create ::
  "('a \<Rightarrow> string) \<Rightarrow> net_error + 'a PacketConn \<Rightarrow> 'a socksLocal \<Rightarrow> 'a \<Rightarrow>
   panic + ('a socksLocal \<times> sockref option)" where
  "udpSocksLocal_create String listen st raddr =
     (case listen of
        Inl e \<Rightarrow> Inr (st\<lparr>sl_log := sl_log st @ [LocalListenError e]\<rparr>, None)
      | Inr newpc \<Rightarrow>
          (case slice (sl_buf st) 3 (length (sl_buf st)) of
             Inl p \<Rightarrow> Inl p
           | Inr _ \<Rightarrow>
               (let pc = FwdSock (length (sl_conns st));
                    (nm', g) = natmap_Add String (sl_nm st) raddr ListenSock pc socksClient
                in Inr (st\<lparr>sl_conns := sl_conns st @ [newpc], sl_nm := nm',
                           sl_reapers := sl_reapers st @ [g],
                           sl_log := sl_log st @ [SocksTunnel]\<rparr>, Some pc))))"

text \<open>
  One iteration of the loop of \<^verbatim>\<open>udpSocksLocal\<close>: the state at the next iteration, or the
  panic that ends the process.
\<close>

definition udpSocksLocal_iter ::
  "('a \<Rightarrow> string) \<Rightarrow> 'a \<Rightarrow> net_error + 'a PacketConn \<Rightarrow> 'a socksLocal \<Rightarrow>
   (panic + 'a socksLocal) option" where
  "udpSocksLocal_iter String srvAddr listen st =
     (case udpSocksLocal_read String st of
        None \<Rightarrow> None
      | Some (st1, None) \<Rightarrow> Some (Inr st1)
      | Some (st1, Some (n, raddr, Some pc)) \<Rightarrow> Some (udpSocksLocal_write srvAddr st1 pc n)
      | Some (st1, Some (n, raddr, None)) \<Rightarrow>
          (case udpSocksLocal_create String listen st1 raddr of
             Inl p \<Rightarrow> Some (Inl p)
           | Inr (st2, None) \<Rightarrow> Some (Inr st2)
           | Inr (st2, Some pc) \<Rightarrow> Some (udpSocksLocal_write srvAddr st2 pc n)))"

text \<open>The state in which \<^verbatim>\<open>udpSocksLocal\<close> enters its loop, on the socket it listens on.\<close>

definition udpSocksLocal_init :: "'a PacketConn \<Rightarrow> int \<Rightarrow> int \<Rightarrow> 'a socksLocal" where
  "udpSocksLocal_init c timeout now =
     \<lparr>sl_c = c, sl_nm = newNATmap timeout, sl_buf = replicate udpBufSize 0, sl_conns = [],
      sl_reapers = [], sl_now = now, sl_log = []\<rparr>"

subsection \<open>The goroutine of \<^verbatim>\<open>natmap.Add\<close>\<close>

text \<open>A socket by its reference, in the state of the SOCKS5 local listener.\<close>

definition get_conn :: "'a socksLocal \<Rightarrow> sockref \<Rightarrow> 'a PacketConn" where
  "get_conn st r = (case r of ListenSock \<Rightarrow> sl_c st | FwdSock i \<Rightarrow> sl_conns st ! i)"

definition put_conn :: "'a socksLocal \<Rightarrow> sockref \<Rightarrow> 'a PacketConn \<Rightarrow> 'a socksLocal" where
  "put_conn st r c =
     (case r of
        ListenSock \<Rightarrow> st\<lparr>sl_c := c\<rparr>
      | FwdSock i \<Rightarrow> st\<lparr>sl_conns := (sl_conns st)[i := c]\<rparr>)"

text \<open>
  The goroutine run from its start to its end:
  \<^verbatim>\<open>timedCopy(dst, peer, src, m.timeout, role)\<close>, then
  \<^verbatim>\<open>if pc := m.Del(peer.String()); pc != nil { pc.Close() }\<close>.
  The result is the state after it, or the panic of the copy loop; \<open>None\<close>: it never ends.
\<close>

definition natmap_Add_go ::
  "('a \<Rightarrow> Addr) \<Rightarrow> (byte list \<Rightarrow> Addr) \<Rightarrow> ('a \<Rightarrow> string) \<Rightarrow> 'a reaper \<Rightarrow> 'a socksLocal \<Rightarrow>
   (panic + 'a socksLocal) option" where
  "natmap_Add_go Parse Split String g st =
     (case timedCopy Parse Split (get_conn st (reaper_dst g)) (reaper_peer g)
             (get_conn st (reaper_src g)) (natmap_timeout (sl_nm st)) (reaper_role g)
             (sl_now st) of
        None \<Rightarrow> None
      | Some (Inl p, dst', src', now') \<Rightarrow> Some (Inl p)
      | Some (Inr e, dst', src', now') \<Rightarrow>
          (let st1 = (put_conn (put_conn st (reaper_src g) src') (reaper_dst g) dst')
                       \<lparr>sl_now := now'\<rparr>
           in case natmap_Del (sl_nm st1) (String (reaper_peer g)) of
                (None, nm') \<Rightarrow> Some (Inr (st1\<lparr>sl_nm := nm'\<rparr>))
              | (Some pc, nm') \<Rightarrow>
                  Some (Inr (put_conn (st1\<lparr>sl_nm := nm'\<rparr>) pc (Close (get_conn st1 pc))))))"




subsection \<open>Buffers, channels and calls\<close>

text \<open>\<^verbatim>\<open>bufPool = sync.Pool{New: func() any { return make([]byte, udpBufSize) }}\<close>: \<^verbatim>\<open>Get\<close>
  takes a buffer that was put back, or makes one; \<^verbatim>\<open>Put\<close> puts one back.\<close>

definition bufPool_Get :: "byte list list \<Rightarrow> byte list \<times> byte list list" where
  "bufPool_Get pool =
     (case pool of [] \<Rightarrow> (replicate udpBufSize 0, []) | b # bs \<Rightarrow> (b, bs))"

definition bufPool_Put :: "byte list list \<Rightarrow> byte list \<Rightarrow> byte list list" where
  "bufPool_Put pool b = b # pool"

text \<open>A slice \<^verbatim>\<open>buf[:n]\<close> of a pooled buffer as it travels through a channel: the buffer
  and the length of the slice.\<close>

type_synonym pkt = "byte list \<times> nat"

definition pkt_bytes :: "pkt \<Rightarrow> byte list" where
  "pkt_bytes p = take (snd p) (fst p)"

text \<open>A channel \<^verbatim>\<open>chan []byte\<close>: capacity, queued values, closed or not.\<close>

record chan =
  ch_cap :: nat
  ch_queue :: "pkt list"
  ch_closed :: bool

definition make_chan :: "nat \<Rightarrow> chan" where
  "make_chan n = \<lparr>ch_cap = n, ch_queue = [], ch_closed = False\<rparr>"

text \<open>
  \<^verbatim>\<open>select { case ch <- b: default: }\<close> on a channel reference (\<open>None\<close> is the nil channel,
  on which a send never proceeds): whether the value was sent, and the channels after.
  A send on a closed channel panics.
\<close>

definition select_send :: "chan list \<Rightarrow> nat option \<Rightarrow> pkt \<Rightarrow> panic + (bool \<times> chan list)" where
  "select_send chans ch b =
     (case ch of
        None \<Rightarrow> Inr (False, chans)
      | Some i \<Rightarrow>
          if ch_closed (chans ! i) then Inl SendOnClosedChannel
          else if length (ch_queue (chans ! i)) < ch_cap (chans ! i)
          then Inr (True, chans[i := (chans ! i)\<lparr>ch_queue := ch_queue (chans ! i) @ [b]\<rparr>])
          else Inr (False, chans))"

subsection \<open>The listeners with a queue per peer\<close>

text \<open>
  \<^verbatim>\<open>udpLocal\<close> and \<^verbatim>\<open>udpRemote\<close> keep \<^verbatim>\<open>m := make(map[string]chan []byte)\<close> under
  \<^verbatim>\<open>var lock sync.Mutex\<close> and start two goroutines per new peer. A session records what the
  goroutines close over: the key, the channel, the forwarding socket, the arguments of the
  return path's call of \<^verbatim>\<open>timedCopy\<close>, and how far the return path's goroutine has come.
\<close>

datatype stage = Copying | PcClosed | Gone

record 'a session =
  ss_key :: string
  ss_ch :: nat
  ss_pc :: nat
  ss_call :: "'a go_value list"
  ss_stage :: stage

record 'a queueRelay =
  qr_c :: "'a PacketConn"
  qr_mu :: "mu_event list"
  qr_m :: "string \<rightharpoonup> nat"
  qr_chans :: "chan list"
  qr_conns :: "'a PacketConn list"
  qr_sessions :: "'a session list"
  qr_pool :: "byte list list"
  qr_timeout :: int
  qr_now :: int
  qr_log :: "log_line list"

text \<open>
  From \<^verbatim>\<open>lock.Lock()\<close> to \<^verbatim>\<open>lock.Unlock()\<close> in an iteration of either listener, for a
  datagram from \<open>raddr\<close>: the channel \<^verbatim>\<open>ch\<close> the iteration leaves with (nil when the socket
  could not be created) and the state. \<open>flag\<close> is the last argument the listener writes in
  its call \<^verbatim>\<open>timedCopy(raddr, c, pc, config.UDPTimeout, flag)\<close>; \<open>listen\<close> is the answer of
  \<^verbatim>\<open>net.ListenPacket("udp", "")\<close>; \<^verbatim>\<open>shadow\<close> returns the socket it wraps.
\<close>

definition relay_locked ::
  "bool \<Rightarrow> ('a \<Rightarrow> string) \<Rightarrow> net_error + 'a PacketConn \<Rightarrow> 'a queueRelay \<Rightarrow> 'a \<Rightarrow>
   nat option \<times> 'a queueRelay" where
  "relay_locked flag String listen st raddr =
     (let k = String raddr in
      case qr_m st k of
        Some ch \<Rightarrow> (Some ch, st\<lparr>qr_mu := qr_mu st @ [Lock, Lookup k, Unlock]\<rparr>)
      | None \<Rightarrow>
          (case listen of
             Inl e \<Rightarrow>
               (None, st\<lparr>qr_mu := qr_mu st @ [Lock, Lookup k, Unlock],
                         qr_log := qr_log st @ [CreateSocketFailed e]\<rparr>)
           | Inr newpc \<Rightarrow>
               (let pc = length (qr_conns st); ch = length (qr_chans st) in
                (Some ch,
                 st\<lparr>qr_mu := qr_mu st @ [Lock, Lookup k, Insert k, Unlock],
                    qr_m := (qr_m st)(k \<mapsto> ch),
                    qr_chans := qr_chans st @ [make_chan 1],
                    qr_conns := qr_conns st @ [newpc],
                    qr_sessions := qr_sessions st @
                      [\<lparr>ss_key = k, ss_ch = ch, ss_pc = pc,
                        ss_call = [AddrV raddr, PacketConnV ListenSock, PacketConnV (FwdSock pc),
                                   DurationV (qr_timeout st), BoolV flag],
                        ss_stage = Copying\<rparr>]\<rparr>))))"

definition udpLocal_locked ::
  "('a \<Rightarrow> string) \<Rightarrow> net_error + 'a PacketConn \<Rightarrow> 'a queueRelay \<Rightarrow> 'a \<Rightarrow>
   nat option \<times> 'a queueRelay" where
  "udpLocal_locked = relay_locked False"

definition udpRemote_locked ::
  "('a \<Rightarrow> string) \<Rightarrow> net_error + 'a PacketConn \<Rightarrow> 'a queueRelay \<Rightarrow> 'a \<Rightarrow>
   nat option \<times> 'a queueRelay" where
  "udpRemote_locked = relay_locked True"

text \<open>
  What an iteration holds between \<^verbatim>\<open>lock.Unlock()\<close> and its \<^verbatim>\<open>select\<close>: the channel
  \<^verbatim>\<open>ch\<close>, the buffer \<^verbatim>\<open>buf\<close>, and the length of the slice it is about to send.
\<close>

type_synonym pending = "nat option \<times> byte list \<times> nat"

text \<open>
  An iteration of the loop of \<^verbatim>\<open>udpLocal\<close> from \<^verbatim>\<open>bufPool.Get()\<close> to \<^verbatim>\<open>lock.Unlock()\<close>;
  \<open>tgt\<close> is \<^verbatim>\<open>socks.ParseAddr(target)\<close>, not nil. The buffer taken from the pool gets
  \<open>tgt\<close> in front and the datagram behind it. The result is a panic, or the state after
  \<^verbatim>\<open>lock.Unlock()\<close> with what the iteration holds for its \<^verbatim>\<open>select\<close> (nothing after a
  read error, where the loop continues); \<open>None\<close> is a read that never returns.
\<close>

definition udpLocal_recv ::
  "('a \<Rightarrow> string) \<Rightarrow> byte list \<Rightarrow> net_error + 'a PacketConn \<Rightarrow> 'a queueRelay \<Rightarrow>
   (panic + ('a queueRelay \<times> pending option)) option" where
  "udpLocal_recv String tgt listen st =
     (case bufPool_Get (qr_pool st) of
        (pbuf, pool') \<Rightarrow>
          (let buf = copy_at pbuf 0 tgt in
           case slice buf (length tgt) (length buf) of
             Inl p \<Rightarrow> Some (Inl p)
           | Inr rest \<Rightarrow>
               (case ReadFrom (qr_c st) (qr_now st) rest of
                  None \<Rightarrow> None
                | Some (ReadErr e, c', now', rest') \<Rightarrow>
                    Some (Inr (st\<lparr>qr_c := c', qr_now := now', qr_pool := pool',
                                  qr_log := qr_log st @ [LocalReadError e]\<rparr>, None))
                | Some (ReadOk n raddr, c', now', rest') \<Rightarrow>
                    (case udpLocal_locked String listen
                            (st\<lparr>qr_c := c', qr_now := now', qr_pool := pool'\<rparr>) raddr of
                       (ch, st') \<Rightarrow>
                         Some (Inr (st', Some (ch, take (length tgt) buf @ rest',
                                               length tgt + n)))))))"

text \<open>The same part of an iteration of \<^verbatim>\<open>udpRemote\<close>, which reads into the whole buffer.\<close>

definition udpRemote_recv ::
  "('a \<Rightarrow> string) \<Rightarrow> net_error + 'a PacketConn \<Rightarrow> 'a queueRelay \<Rightarrow>
   ('a queueRelay \<times> pending option) option" where
  "udpRemote_recv String listen st =
     (case bufPool_Get (qr_pool st) of
        (buf, pool') \<Rightarrow>
          (case ReadFrom (qr_c st) (qr_now st) buf of
             None \<Rightarrow> None
           | Some (ReadErr e, c', now', buf') \<Rightarrow>
               Some (st\<lparr>qr_c := c', qr_now := now', qr_pool := pool',
                        qr_log := qr_log st @ [RemoteReadError e]\<rparr>, None)
           | Some (ReadOk n raddr, c', now', buf') \<Rightarrow>
               (case udpRemote_locked String listen
                       (st\<lparr>qr_c := c', qr_now := now', qr_pool := pool'\<rparr>) raddr of
                  (ch, st') \<Rightarrow> Some (st', Some (ch, buf', n)))))"

text \<open>
  \<^verbatim>\<open>select { case ch <- buf[:n]: default: bufPool.Put(buf) }\<close>, the last statement of an
  iteration of either listener, in the state \<open>st\<close> in which it runs. It runs after
  \<^verbatim>\<open>lock.Unlock()\<close>, so \<open>st\<close> is the state that the other goroutines have made of the
  one the critical section left: the end of a return path (\<open>teardown_close\<close>,
  \<open>teardown_unmap\<close> below) can lie in between.
\<close>

definition relay_select ::
  "'a queueRelay \<Rightarrow> nat option \<Rightarrow> byte list \<Rightarrow> nat \<Rightarrow> panic + 'a queueRelay" where
  "relay_select st ch buf n =
     (case slice buf 0 n of
        Inl p \<Rightarrow> Inl p
      | Inr _ \<Rightarrow>
          (case select_send (qr_chans st) ch (buf, n) of
             Inl p \<Rightarrow> Inl p
           | Inr (True, chans') \<Rightarrow> Inr (st\<lparr>qr_chans := chans'\<rparr>)
           | Inr (False, chans') \<Rightarrow> Inr (st\<lparr>qr_pool := bufPool_Put (qr_pool st) buf\<rparr>)))"

text \<open>
  The body of the drain loop of \<^verbatim>\<open>udpRemote\<close> for one value received from the channel:
  split the address (\<open>Split\<close> is \<^verbatim>\<open>socks.SplitAddr\<close>), resolve it (\<open>Resolve\<close> is
  \<^verbatim>\<open>net.ResolveUDPAddr("udp", tgtAddr.String())\<close>), extend the deadline of \<open>pc\<close>, write the
  payload; at \<^verbatim>\<open>End\<close> the buffer goes back to the pool.
\<close>

definition udpRemote_drain_body ::
  "(byte list \<Rightarrow> Addr) \<Rightarrow> (byte list \<Rightarrow> net_error + 'a) \<Rightarrow> nat \<Rightarrow> pkt \<Rightarrow> 'a queueRelay \<Rightarrow>
   panic + 'a queueRelay" where
  "udpRemote_drain_body Split Resolve pc b st =
     (let End = (\<lambda>s. s\<lparr>qr_pool := bufPool_Put (qr_pool s) (fst b)\<rparr>) in
      case Split (pkt_bytes b) of
        None \<Rightarrow> Inr (End (st\<lparr>qr_log := qr_log st @ [SplitFailed (pkt_bytes b)]\<rparr>))
      | Some tgtAddr \<Rightarrow>
          (case Resolve tgtAddr of
             Inl e \<Rightarrow> Inr (End (st\<lparr>qr_log := qr_log st @ [ResolveFailed]\<rparr>))
           | Inr tgtUDPAddr \<Rightarrow>
               (case slice (fst b) (length tgtAddr) (snd b) of
                  Inl p \<Rightarrow> Inl p
                | Inr payload \<Rightarrow>
                    (let src = SetReadDeadline (qr_conns st ! pc) (qr_now st + qr_timeout st) in
                     case WriteTo src payload tgtUDPAddr of
                       (None, src') \<Rightarrow> Inr (End (st\<lparr>qr_conns := (qr_conns st)[pc := src']\<rparr>))
                     | (Some e, src') \<Rightarrow>
                         Inr (End (st\<lparr>qr_conns := (qr_conns st)[pc := src'],
                                      qr_log := qr_log st @ [RemoteWriteError e]\<rparr>))))))"

text \<open>The body of the drain loop of \<^verbatim>\<open>udpLocal\<close>: extend the deadline, write to the server,
  put the buffer back.\<close>

definition udpLocal_drain_body :: "'a \<Rightarrow> nat \<Rightarrow> pkt \<Rightarrow> 'a queueRelay \<Rightarrow> 'a queueRelay" where
  "udpLocal_drain_body srvAddr pc b st =
     (let src = SetReadDeadline (qr_conns st ! pc) (qr_now st + qr_timeout st) in
      case WriteTo src (pkt_bytes b) srvAddr of
        (None, src') \<Rightarrow>
          st\<lparr>qr_conns := (qr_conns st)[pc := src'],
             qr_pool := bufPool_Put (qr_pool st) (fst b)\<rparr>
      | (Some e, src') \<Rightarrow>
          st\<lparr>qr_conns := (qr_conns st)[pc := src'],
             qr_log := qr_log st @ [LocalWriteError e],
             qr_pool := bufPool_Put (qr_pool st) (fst b)\<rparr>)"

text \<open>
  \<^verbatim>\<open>for buf := range ch\<close>: the next value of the channel of session \<open>i\<close>, taken out of the
  queue. \<open>None\<close>: nothing to receive (the goroutine waits, or the loop has ended on a
  closed and empty channel).
\<close>

definition chan_recv :: "chan list \<Rightarrow> nat \<Rightarrow> (pkt \<times> chan list) option" where
  "chan_recv chans i =
     (case ch_queue (chans ! i) of
        [] \<Rightarrow> None
      | b # bs \<Rightarrow> Some (b, chans[i := (chans ! i)\<lparr>ch_queue := bs\<rparr>]))"

text \<open>
  The end of the return path's goroutine of session \<open>i\<close>, after its copy loop has returned:
  first \<^verbatim>\<open>pc.Close()\<close>, then, under the lock,
  \<^verbatim>\<open>if ch := m[k]; ch != nil { close(ch) }; delete(m, k)\<close>. Closing a closed channel
  panics.
\<close>

definition teardown_close :: "nat \<Rightarrow> 'a queueRelay \<Rightarrow> 'a queueRelay" where
  "teardown_close i st =
     (let s = qr_sessions st ! i in
      st\<lparr>qr_conns := (qr_conns st)[ss_pc s := Close (qr_conns st ! ss_pc s)],
         qr_sessions := (qr_sessions st)[i := s\<lparr>ss_stage := PcClosed\<rparr>]\<rparr>)"

definition teardown_unmap :: "nat \<Rightarrow> 'a queueRelay \<Rightarrow> panic + 'a queueRelay" where
  "teardown_unmap i st =
     (let s = qr_sessions st ! i; k = ss_key s;
          st' = st\<lparr>qr_mu := qr_mu st @ [Lock, Lookup k, Delete k, Unlock],
                   qr_m := (qr_m st)(k := None),
                   qr_sessions := (qr_sessions st)[i := s\<lparr>ss_stage := Gone\<rparr>]\<rparr>
      in case qr_m st k of
           None \<Rightarrow> Inr st'
         | Some ch \<Rightarrow>
             if ch_closed (qr_chans st ! ch) then Inl CloseOfClosedChannel
             else Inr (st'\<lparr>qr_chans :=
                            (qr_chans st)[ch := (qr_chans st ! ch)\<lparr>ch_closed := True\<rparr>]\<rparr>))"

text \<open>The state in which a listener with queues enters its loop.\<close>

definition queueRelay_init :: "'a PacketConn \<Rightarrow> int \<Rightarrow> int \<Rightarrow> 'a queueRelay" where
  "queueRelay_init c timeout now =
     \<lparr>qr_c = c, qr_mu = [], qr_m = Map.empty, qr_chans = [], qr_conns = [], qr_sessions = [],
      qr_pool = [], qr_timeout = timeout, qr_now = now, qr_log = []\<rparr>"

text \<open>The inbox of peer \<open>k\<close> is channel \<open>i\<close> and holds the one datagram \<open>old\<close>.\<close>

definition inbox_full :: "'a queueRelay \<Rightarrow> string \<Rightarrow> nat \<Rightarrow> pkt \<Rightarrow> bool" where
  "inbox_full st k i old = (qr_m st k = Some i \<and> ch_queue (qr_chans st ! i) = [old])"

subsection \<open>Runs of the listeners and their goroutines\<close>

text \<open>
  The steps that the goroutines of a listener with queues take, in any order. A step is
  what one goroutine does while it holds the lock, or one statement outside it:
  \<^item> the listener's critical section for a datagram from \<open>raddr\<close> (\<open>relay_locked\<close>);
  \<^item> \<^verbatim>\<open>pc.Close()\<close> in a return path whose copy loop has returned (\<open>teardown_close\<close>);
  \<^item> that goroutine's critical section (\<open>teardown_unmap\<close>);
  \<^item> any other statement (the reads, the select, the drain loops, the copy loops): these
    change sockets, queues, the pool, the clock and the log, and leave the table, its
    lock and the sessions as they are; they neither make nor close a channel.
\<close>

inductive relay_reach ::
  "bool \<Rightarrow> ('a \<Rightarrow> string) \<Rightarrow> 'a queueRelay \<Rightarrow> 'a queueRelay \<Rightarrow> bool"
  for flag :: bool and String :: "'a \<Rightarrow> string" and st0 :: "'a queueRelay" where
  relay_start: "relay_reach flag String st0 st0"
| relay_arrive:
    "relay_reach flag String st0 st \<Longrightarrow>
     relay_reach flag String st0 (snd (relay_locked flag String listen st raddr))"
| relay_close:
    "relay_reach flag String st0 st \<Longrightarrow> i < length (qr_sessions st) \<Longrightarrow>
     ss_stage (qr_sessions st ! i) = Copying \<Longrightarrow>
     relay_reach flag String st0 (teardown_close i st)"
| relay_unmap:
    "relay_reach flag String st0 st \<Longrightarrow> i < length (qr_sessions st) \<Longrightarrow>
     ss_stage (qr_sessions st ! i) = PcClosed \<Longrightarrow> teardown_unmap i st = Inr st' \<Longrightarrow>
     relay_reach flag String st0 st'"
| relay_other:
    "relay_reach flag String st0 st \<Longrightarrow>
     qr_m st' = qr_m st \<Longrightarrow> qr_mu st' = qr_mu st \<Longrightarrow> qr_sessions st' = qr_sessions st \<Longrightarrow>
     map ch_closed (qr_chans st') = map ch_closed (qr_chans st) \<Longrightarrow>
     map ch_cap (qr_chans st') = map ch_cap (qr_chans st) \<Longrightarrow>
     relay_reach flag String st0 st'"

text \<open>The channels of the sessions of peer \<open>k\<close> that have not been torn down.\<close>

definition live_chs :: "'a queueRelay \<Rightarrow> string \<Rightarrow> nat list" where
  "live_chs st k =
     map ss_ch (filter (\<lambda>s. ss_key s = k \<and> ss_stage s \<noteq> Gone) (qr_sessions st))"

text \<open>
  In the history of a mutex, every insertion of key \<open>k\<close> happens in a critical section in
  which \<open>k\<close> was looked up before; \<open>looked\<close> says whether it was, in the section at hand.
\<close>

fun checked_inserts :: "string \<Rightarrow> bool \<Rightarrow> mu_event list \<Rightarrow> bool" where
  "checked_inserts k looked [] = True"
| "checked_inserts k looked (Lock # es) = checked_inserts k False es"
| "checked_inserts k looked (Unlock # es) = checked_inserts k False es"
| "checked_inserts k looked (RLock # es) = checked_inserts k False es"
| "checked_inserts k looked (RUnlock # es) = checked_inserts k False es"
| "checked_inserts k looked (Lookup k' # es) = checked_inserts k (looked \<or> k' = k) es"
| "checked_inserts k looked (Insert k' # es) =
     (if k' = k then looked \<and> checked_inserts k looked es else checked_inserts k looked es)"
| "checked_inserts k looked (Delete k' # es) = checked_inserts k looked es"

text \<open>
  The steps of the SOCKS5 local listener and the goroutines of \<^verbatim>\<open>natmap.Add\<close>. The listener
  is between two of its steps when \<open>sr_pending\<close> holds what it has read and what \<^verbatim>\<open>Get\<close>
  returned; \<open>sr_stages\<close> says how far each goroutine of \<open>sl_reapers\<close> has come. Each call
  of a method of the table is a step; so is \<^verbatim>\<open>pc.Close()\<close>; any other statement leaves the
  table and the goroutines as they are.
\<close>

datatype rstage = Running | Deleted "sockref option" | Ended

record 'a socksRun =
  sr_st :: "'a socksLocal"
  sr_pending :: "(nat \<times> 'a \<times> sockref option) option"
  sr_stages :: "rstage list"

inductive socks_reach :: "('a \<Rightarrow> string) \<Rightarrow> 'a socksRun \<Rightarrow> 'a socksRun \<Rightarrow> bool"
  for String :: "'a \<Rightarrow> string" and r0 :: "'a socksRun" where
  socks_start: "socks_reach String r0 r0"
| socks_read:
    "socks_reach String r0 r \<Longrightarrow> sr_pending r = None \<Longrightarrow>
     udpSocksLocal_read String (sr_st r) = Some (st', res) \<Longrightarrow>
     socks_reach String r0 (r\<lparr>sr_st := st', sr_pending := res\<rparr>)"
| socks_create:
    "socks_reach String r0 r \<Longrightarrow> sr_pending r = Some (n, raddr, None) \<Longrightarrow>
     udpSocksLocal_create String listen (sr_st r) raddr = Inr (st', pco) \<Longrightarrow>
     socks_reach String r0
       (r\<lparr>sr_st := st',
          sr_pending := (case pco of None \<Rightarrow> None | Some pc \<Rightarrow> Some (n, raddr, Some pc)),
          sr_stages := (case pco of None \<Rightarrow> sr_stages r | Some pc \<Rightarrow> sr_stages r @ [Running])\<rparr>)"
| socks_write:
    "socks_reach String r0 r \<Longrightarrow> sr_pending r = Some (n, raddr, Some pc) \<Longrightarrow>
     udpSocksLocal_write srvAddr (sr_st r) pc n = Inr st' \<Longrightarrow>
     socks_reach String r0 (r\<lparr>sr_st := st', sr_pending := None\<rparr>)"
| socks_del:
    "socks_reach String r0 r \<Longrightarrow> i < length (sr_stages r) \<Longrightarrow> sr_stages r ! i = Running \<Longrightarrow>
     natmap_Del (sl_nm (sr_st r)) (String (reaper_peer (sl_reapers (sr_st r) ! i))) = (pc, nm') \<Longrightarrow>
     socks_reach String r0
       (r\<lparr>sr_st := (sr_st r)\<lparr>sl_nm := nm'\<rparr>, sr_stages := (sr_stages r)[i := Deleted pc]\<rparr>)"
| socks_close:
    "socks_reach String r0 r \<Longrightarrow> i < length (sr_stages r) \<Longrightarrow> sr_stages r ! i = Deleted pc \<Longrightarrow>
     socks_reach String r0
       (r\<lparr>sr_st := (case pc of
                       None \<Rightarrow> sr_st r
                     | Some p \<Rightarrow> put_conn (sr_st r) p (Close (get_conn (sr_st r) p))),
          sr_stages := (sr_stages r)[i := Ended]\<rparr>)"
| socks_other:
    "socks_reach String r0 r \<Longrightarrow>
     sl_nm st' = sl_nm (sr_st r) \<Longrightarrow> sl_reapers st' = sl_reapers (sr_st r) \<Longrightarrow>
     socks_reach String r0 (r\<lparr>sr_st := st'\<rparr>)"

text \<open>The forwarding sockets of the goroutines for peer \<open>k\<close> that have not yet called
  \<^verbatim>\<open>Del\<close>.\<close>

definition live_srcs :: "('a \<Rightarrow> string) \<Rightarrow> 'a socksRun \<Rightarrow> string \<Rightarrow> sockref list" where
  "live_srcs String r k =
     map (\<lambda>(g, stg). reaper_src g)
       (filter (\<lambda>(g, stg). String (reaper_peer g) = k \<and> stg = Running)
          (zip (sl_reapers (sr_st r)) (sr_stages r)))"

definition socksRun_init :: "'a PacketConn \<Rightarrow> int \<Rightarrow> int \<Rightarrow> 'a socksRun" where
  "socksRun_init c timeout now =
     \<lparr>sr_st = udpSocksLocal_init c timeout now, sr_pending = None, sr_stages = []\<rparr>"

text \<open>The table of a listener with queues holds, for each peer, the channel of its one
  session that has not been torn down, and nothing for a peer without such a session.\<close>

definition table_matches :: "'a queueRelay \<Rightarrow> bool" where
  "table_matches st =
     (\<forall>k. live_chs st k = (case qr_m st k of None \<Rightarrow> [] | Some ch \<Rightarrow> [ch]))"

text \<open>The channels in the table are open, of capacity 1, and belong to one peer each.\<close>

definition chans_sound :: "'a queueRelay \<Rightarrow> bool" where
  "chans_sound st =
     ((\<forall>k ch. qr_m st k = Some ch \<longrightarrow>
          ch < length (qr_chans st) \<and> \<not> ch_closed (qr_chans st ! ch) \<and>
          ch_cap (qr_chans st ! ch) = 1) \<and>
      (\<forall>k k' ch. qr_m st k = Some ch \<longrightarrow> qr_m st k' = Some ch \<longrightarrow> k = k'))"

text \<open>The same for the NAT table and the goroutines that have not yet called \<^verbatim>\<open>Del\<close>; and
  while the listener holds nil from \<^verbatim>\<open>Get\<close> for a peer, the table has no entry for it.\<close>

definition natmap_matches :: "('a \<Rightarrow> string) \<Rightarrow> 'a socksRun \<Rightarrow> bool" where
  "natmap_matches String r =
     (length (sr_stages r) = length (sl_reapers (sr_st r)) \<and>
      (\<forall>k. live_srcs String r k
             = (case natmap_m (sl_nm (sr_st r)) k of None \<Rightarrow> [] | Some pc \<Rightarrow> [pc])) \<and>
      (\<forall>n raddr. sr_pending r = Some (n, raddr, None)
             \<longrightarrow> natmap_m (sl_nm (sr_st r)) (String raddr) = None))"

subsection \<open>Example values\<close>

definition fresh_conn :: "socks_addr PacketConn" where
  "fresh_conn = \<lparr>readDeadline = None, inbound = [], wresults = [], outbound = [],
     closed = False, calls = []\<rparr>"

definition target_203 :: socks_addr where
  "target_203 = SocksAddr (IPv4 203 0 113 5) 9000"

definition client_198 :: socks_addr where
  "client_198 = SocksAddr (IPv4 198 51 100 7) 40000"

definition two_byte_listener :: "string PacketConn" where
  "two_byte_listener = \<lparr>readDeadline = None, inbound = [(0, [0, 0], ''192.0.2.9:5353'')],
     wresults = [], outbound = [], closed = False, calls = []\<rparr>"

definition new_socket :: "string PacketConn" where
  "new_socket = \<lparr>readDeadline = None, inbound = [],
     wresults = [], outbound = [], closed = False, calls = []\<rparr>"

definition target_v6 :: socks_addr where
  "target_v6 = SocksAddr (IPv6 (replicate 16 0x20)) 9000"

definition full_payload :: "byte list" where
  "full_payload = replicate 65527 0x61"

definition malformed :: "byte list" where
  "malformed = [9, 0x41, 0x42]"

definition busy_relay :: "bool \<Rightarrow> string queueRelay" where
  "busy_relay flag =
     \<lparr>qr_c = \<lparr>readDeadline = None, inbound = [(5, [0x63], ''192.0.2.9:5353'')],
              wresults = [], outbound = [], closed = False, calls = []\<rparr>,
      qr_mu = [Lock, Lookup ''192.0.2.9:5353'', Insert ''192.0.2.9:5353'', Unlock],
      qr_m = [''192.0.2.9:5353'' \<mapsto> 0],
      qr_chans = [\<lparr>ch_cap = 1, ch_queue = [(replicate udpBufSize 0x62, 2)], ch_closed = False\<rparr>],
      qr_conns = [new_socket],
      qr_sessions = [\<lparr>ss_key = ''192.0.2.9:5353'', ss_ch = 0, ss_pc = 0,
                      ss_call = [AddrV ''192.0.2.9:5353'', PacketConnV ListenSock,
                                 PacketConnV (FwdSock 0), DurationV 300, BoolV flag],
                      ss_stage = Copying\<rparr>],
      qr_pool = [], qr_timeout = 300, qr_now = 4, qr_log = []\<rparr>"


definition four_byte_listener :: "string PacketConn" where
  "four_byte_listener = \<lparr>readDeadline = None, inbound = [(0, [0, 0, 0, 1], ''192.0.2.9:5353'')],
     wresults = [], outbound = [], closed = False, calls = []\<rparr>"

text \<open>
  \<open>busy_relay\<close> after its listener has read the second datagram of the peer and left its
  critical section, and then after the return path of the peer's session has ended.
\<close>

definition busy_unlocked :: "bool \<Rightarrow> string queueRelay" where
  "busy_unlocked flag =
     \<lparr>qr_c = \<lparr>readDeadline = None, inbound = [],
              wresults = [], outbound = [], closed = False, calls = [ReadFromCall 4]\<rparr>,
      qr_mu = [Lock, Lookup ''192.0.2.9:5353'', Insert ''192.0.2.9:5353'', Unlock,
               Lock, Lookup ''192.0.2.9:5353'', Unlock],
      qr_m = [''192.0.2.9:5353'' \<mapsto> 0],
      qr_chans = [\<lparr>ch_cap = 1, ch_queue = [(replicate udpBufSize 0x62, 2)], ch_closed = False\<rparr>],
      qr_conns = [new_socket],
      qr_sessions = [\<lparr>ss_key = ''192.0.2.9:5353'', ss_ch = 0, ss_pc = 0,
                      ss_call = [AddrV ''192.0.2.9:5353'', PacketConnV ListenSock,
                                 PacketConnV (FwdSock 0), DurationV 300, BoolV flag],
                      ss_stage = Copying\<rparr>],
      qr_pool = [], qr_timeout = 300, qr_now = 5, qr_log = []\<rparr>"

definition busy_torn :: "bool \<Rightarrow> string queueRelay" where
  "busy_torn flag =
     \<lparr>qr_c = \<lparr>readDeadline = None, inbound = [],
              wresults = [], outbound = [], closed = False, calls = [ReadFromCall 4]\<rparr>,
      qr_mu = [Lock, Lookup ''192.0.2.9:5353'', Insert ''192.0.2.9:5353'', Unlock,
               Lock, Lookup ''192.0.2.9:5353'', Unlock,
               Lock, Lookup ''192.0.2.9:5353'', Delete ''192.0.2.9:5353'', Unlock],
      qr_m = Map.empty,
      qr_chans = [\<lparr>ch_cap = 1, ch_queue = [(replicate udpBufSize 0x62, 2)], ch_closed = True\<rparr>],
      qr_conns = [\<lparr>readDeadline = None, inbound = [],
                   wresults = [], outbound = [], closed = True, calls = [CloseCall]\<rparr>],
      qr_sessions = [\<lparr>ss_key = ''192.0.2.9:5353'', ss_ch = 0, ss_pc = 0,
                      ss_call = [AddrV ''192.0.2.9:5353'', PacketConnV ListenSock,
                                 PacketConnV (FwdSock 0), DurationV 300, BoolV flag],
                      ss_stage = Gone\<rparr>],
      qr_pool = [], qr_timeout = 300, qr_now = 5, qr_log = []\<rparr>"

section \<open>Properties\<close>

subsection \<open>Slices, reads and one turn of the loop\<close>

lemma len_bytes_Addr: "length (bytes_Addr a) = len_Addr a"
  by (simp add: bytes_Addr_def len_Addr_def split: option.splits)

lemma copy_at_fits:
  "off + length s \<le> length b \<Longrightarrow> copy_at b off s = take off b @ s @ drop (off + length s) b"
  by (simp add: copy_at_def Let_def)

lemma length_copy_at: "off \<le> length b \<Longrightarrow> length (copy_at b off s) = length b"
  by (auto simp: copy_at_def Let_def)

lemma ReadFrom_ok_n:
  "ReadFrom c now buf = Some (ReadOk n a, c', now', buf') \<Longrightarrow>
   n \<le> length buf \<and> length buf' = length buf"
  by (auto simp: ReadFrom_def Let_def stored_def split: if_splits option.splits list.splits)

lemma ReadFrom_ok_payload:
  "ReadFrom c now buf = Some (ReadOk n a, c', now', buf') \<Longrightarrow>
   inbound c \<noteq> [] \<and> inbound c' = tl (inbound c) \<and> a = snd (snd (hd (inbound c))) \<and>
   take n buf' = take (length buf) (fst (snd (hd (inbound c))))"
  by (auto simp: ReadFrom_def Let_def stored_def min_def
      split: if_splits option.splits list.splits)

lemma timedCopy_loop_read_ok:
  assumes "ReadFrom (SetReadDeadline src (now + timeout)) now buf
             = Some (ReadOk n raddr, src', now', buf')"
    and "timedCopy_switch P S role buf' n raddr = Inr (d, buf'')"
  shows "timedCopy_loop P S dst target src timeout role now buf =
     (case WriteTo dst d target of
        (Some e, dst') \<Rightarrow> Some (Inr e, dst', src', now')
      | (None, dst') \<Rightarrow> timedCopy_loop P S dst' target src' timeout role now' buf'')"
  using assms by (subst timedCopy_loop.simps) simp

lemma timedCopy_loop_read_panic:
  assumes "ReadFrom (SetReadDeadline src (now + timeout)) now buf
             = Some (ReadOk n raddr, src', now', buf')"
    and "timedCopy_switch P S role buf' n raddr = Inl e"
  shows "timedCopy_loop P S dst target src timeout role now buf = Some (Inl e, dst, src', now')"
  using assms by (subst timedCopy_loop.simps) simp

lemma timedCopy_loop_read_err:
  assumes "ReadFrom (SetReadDeadline src (now + timeout)) now buf
             = Some (ReadErr e, src', now', buf')"
  shows "timedCopy_loop P S dst target src timeout role now buf = Some (Inr e, dst, src', now')"
  using assms by (subst timedCopy_loop.simps) simp

subsection \<open>The SOCKS5 header on the way back to a SOCKS client\<close>

lemma switch_socksClient:
  "n \<le> length buf \<Longrightarrow>
   timedCopy_switch P S socksClient buf n raddr = Inr ([0, 0, 0] @ take n buf, buf)"
  by (simp add: timedCopy_switch_def slice_def)

lemma read_ab:
  "ReadFrom (SetReadDeadline (fresh_conn\<lparr>inbound := [(1, [0x61, 0x62], target_203)]\<rparr>) (0 + 10))
      0 (replicate udpBufSize 0)
   = Some (ReadOk 2 target_203,
       fresh_conn\<lparr>readDeadline := Some 10, inbound := [],
         calls := [SetReadDeadlineCall 10, ReadFromCall 0]\<rparr>,
       1, [0x61, 0x62] @ replicate (udpBufSize - 2) 0)"
  by (simp add: ReadFrom_def SetReadDeadline_def fresh_conn_def Let_def stored_def
      udpBufSize_def)

text \<open>
  C6. In role \<open>socksClient\<close>, after every successful read of \<open>n\<close> bytes the loop hands
  \<^verbatim>\<open>dst.WriteTo\<close> exactly the three bytes 0, 0, 0 followed by the \<open>n\<close> bytes read, which are
  the datagram that arrived (cut to the buffer) and are left unchanged.
\<close>

theorem timedCopy_socksClient_header:
  assumes "ReadFrom (SetReadDeadline src (now + timeout)) now buf
             = Some (ReadOk n raddr, src', now', buf')"
  shows "timedCopy_switch P S socksClient buf' n raddr = Inr ([0, 0, 0] @ take n buf', buf')
    \<and> timedCopy_loop P S dst target src timeout socksClient now buf =
       (case WriteTo dst ([0, 0, 0] @ take n buf') target of
          (Some e, dst') \<Rightarrow> Some (Inr e, dst', src', now')
        | (None, dst') \<Rightarrow> timedCopy_loop P S dst' target src' timeout socksClient now' buf')
    \<and> inbound src \<noteq> []
    \<and> take n buf' = take (length buf) (fst (snd (hd (inbound src))))"
proof -
  from ReadFrom_ok_n [OF assms] have n: "n \<le> length buf'" by simp
  have sw: "timedCopy_switch P S socksClient buf' n raddr = Inr ([0, 0, 0] @ take n buf', buf')"
    using n by (rule switch_socksClient)
  from ReadFrom_ok_payload [OF assms]
  have p: "inbound src \<noteq> [] \<and> take n buf' = take (length buf) (fst (snd (hd (inbound src))))"
    by (simp add: SetReadDeadline_def)
  show ?thesis using sw timedCopy_loop_read_ok [OF assms sw] p by blast
qed

theorem timedCopy_socksClient_header_witness:
  "timedCopy_switch ParseAddr SplitAddr socksClient
       ([0x61, 0x62] @ replicate (udpBufSize - 2) 0) 2 target_203
     = Inr ([0, 0, 0, 0x61, 0x62], [0x61, 0x62] @ replicate (udpBufSize - 2) 0)"
proof -
  have "timedCopy_switch ParseAddr SplitAddr socksClient
          ([0x61, 0x62] @ replicate (udpBufSize - 2) 0) 2 target_203
        = Inr ([0, 0, 0] @ take 2 ([0x61, 0x62] @ replicate (udpBufSize - 2) 0),
               [0x61, 0x62] @ replicate (udpBufSize - 2) 0)"
    by (rule timedCopy_socksClient_header
          [OF read_ab, of ParseAddr SplitAddr fresh_conn client_198, THEN conjunct1])
  then show ?thesis by simp
qed
subsection \<open>Removal from the NAT table\<close>

lemma natmap_Del_after_Set:
  "fst (natmap_Del (natmap_Set nm key pc) key) = Some pc \<and>
   natmap_m (snd (natmap_Del (natmap_Set nm key pc) key)) = (natmap_m nm)(key := None)"
  by (simp add: natmap_Del_def natmap_Set_def)

lemma natmap_Del_absent:
  "natmap_m nm key = None \<Longrightarrow>
   fst (natmap_Del nm key) = None \<and> natmap_m (snd (natmap_Del nm key)) = natmap_m nm"
  by (simp add: natmap_Del_def)

lemma teardown_step_potential:
  "teardown_step key (nm, closes, pc) = (nm', closes', pc') \<Longrightarrow>
   closes' r + td_pending pc' r + td_bound key nm' r
     = closes r + td_pending pc r + td_bound key nm r"
  by (auto simp: teardown_step_def natmap_Del_def td_pending_def td_bound_def
      split: teardown_pc.splits option.splits if_splits)

lemma teardown_race_potential:
  "td_potential key r (teardown_race key sched s) = td_potential key r s"
proof (induction sched arbitrary: s)
  case Nil
  then show ?case by simp
next
  case (Cons b bs)
  show ?case
  proof (cases b)
    case True
    obtain nm closes pc
      where st: "teardown_step key (td_nm s, td_closes s, td_first s) = (nm, closes, pc)"
      by (metis prod_cases3)
    from teardown_step_potential [OF st, of r]
    have "td_potential key r (s\<lparr>td_nm := nm, td_closes := closes, td_first := pc\<rparr>)
            = td_potential key r s"
      by (simp add: td_potential_def)
    then show ?thesis using True st Cons.IH by simp
  next
    case False
    obtain nm closes pc
      where st: "teardown_step key (td_nm s, td_closes s, td_second s) = (nm, closes, pc)"
      by (metis prod_cases3)
    from teardown_step_potential [OF st, of r]
    have "td_potential key r (s\<lparr>td_nm := nm, td_closes := closes, td_second := pc\<rparr>)
            = td_potential key r s"
      by (simp add: td_potential_def)
    then show ?thesis using False st Cons.IH by simp
  qed
qed

text \<open>
  C7. \<^verbatim>\<open>Del\<close> after \<^verbatim>\<open>Set\<close> returns the stored connection and removes the entry; \<^verbatim>\<open>Del\<close>
  again returns nil and leaves the table as it is. When two teardown paths run
  \<^verbatim>\<open>if pc := m.Del(key); pc != nil { pc.Close() }\<close> on the same key in any interleaving, the
  socket stored under the key is closed at most once and no other socket is closed.
\<close>

theorem natmap_Del_idempotent:
  "fst (natmap_Del (natmap_Set nm key pc) key) = Some pc
   \<and> natmap_m (snd (natmap_Del (natmap_Set nm key pc) key)) key = None
   \<and> fst (natmap_Get (snd (natmap_Del (natmap_Set nm key pc) key)) key) = None
   \<and> fst (natmap_Del (snd (natmap_Del (natmap_Set nm key pc) key)) key) = None
   \<and> natmap_m (snd (natmap_Del (snd (natmap_Del (natmap_Set nm key pc) key)) key))
       = natmap_m (snd (natmap_Del (natmap_Set nm key pc) key))
   \<and> td_closes (teardown_race key sched
         \<lparr>td_nm = natmap_Set nm key r, td_closes = closes,
          td_first = BeforeDel, td_second = BeforeDel\<rparr>) r'
       \<le> closes r' + (if r' = r then 1 else 0)"
proof -
  let ?s = "\<lparr>td_nm = natmap_Set nm key r, td_closes = closes,
             td_first = BeforeDel, td_second = BeforeDel\<rparr>"
  let ?nm1 = "snd (natmap_Del (natmap_Set nm key pc) key)"
  have "td_closes (teardown_race key sched ?s) r' \<le> td_potential key r' (teardown_race key sched ?s)"
    by (simp add: td_potential_def)
  also have "\<dots> = td_potential key r' ?s"
    by (rule teardown_race_potential)
  also have "\<dots> = closes r' + (if r' = r then 1 else 0)"
    by (simp add: td_potential_def td_pending_def td_bound_def natmap_Set_def)
  finally have race: "td_closes (teardown_race key sched ?s) r'
       \<le> closes r' + (if r' = r then 1 else 0)" .
  have gone: "natmap_m ?nm1 key = None"
    by (simp add: natmap_Del_after_Set)
  from natmap_Del_absent [OF gone]
  have again: "fst (natmap_Del ?nm1 key) = None \<and> natmap_m (snd (natmap_Del ?nm1 key)) = natmap_m ?nm1" .
  have get: "fst (natmap_Get ?nm1 key) = None"
    using gone by (simp add: natmap_Get_def)
  show ?thesis using race gone again get
    by (simp add: natmap_Del_after_Set)
qed

subsection \<open>A datagram shorter than the SOCKS5 UDP header\<close>

lemma udpSocksLocal_write_short:
  "n < 3 \<Longrightarrow> udpSocksLocal_write srvAddr st pc n = Inl SliceBoundsOutOfRange"
  by (simp add: udpSocksLocal_write_def slice_def)

lemma two_byte_read:
  "ReadFrom (sl_c (udpSocksLocal_init two_byte_listener 300 0))
      (sl_now (udpSocksLocal_init two_byte_listener 300 0))
      (sl_buf (udpSocksLocal_init two_byte_listener 300 0))
   = Some (ReadOk 2 ''192.0.2.9:5353'',
       two_byte_listener\<lparr>inbound := [], calls := [ReadFromCall 0]\<rparr>, 0,
       [0, 0] @ replicate (udpBufSize - 2) 0)"
  by (simp add: udpSocksLocal_init_def ReadFrom_def two_byte_listener_def Let_def stored_def
      udpBufSize_def)

text \<open>
  C10. The loop of \<^verbatim>\<open>udpSocksLocal\<close> has no check of \<open>n\<close> against the 3 bytes of the SOCKS5
  UDP header: when a datagram of fewer than 3 bytes is read and the peer has a session or
  \<^verbatim>\<open>net.ListenPacket\<close> succeeds, \<^verbatim>\<open>buf[3:n]\<close> is out of range and the iteration panics.
\<close>

theorem udpSocksLocal_short_datagram_panics:
  assumes "ReadFrom (sl_c st) (sl_now st) (sl_buf st) = Some (ReadOk n raddr, c', now', buf')"
    and "n < 3"
    and "fst (natmap_Get (sl_nm st) (String raddr)) \<noteq> None \<or> listen = Inr newpc"
    and "length (sl_buf st) = udpBufSize"
  shows "udpSocksLocal_iter String srvAddr listen st = Some (Inl SliceBoundsOutOfRange)"
proof -
  from ReadFrom_ok_n [OF assms(1)] assms(4) have len: "length buf' = udpBufSize" by simp
  obtain pc nm' where get: "natmap_Get (sl_nm st) (String raddr) = (pc, nm')"
    by (cases "natmap_Get (sl_nm st) (String raddr)")
  let ?st1 = "st\<lparr>sl_c := c', sl_now := now', sl_buf := buf', sl_nm := nm'\<rparr>"
  have rd: "udpSocksLocal_read String st = Some (?st1, Some (n, raddr, pc))"
    using assms(1) get by (simp add: udpSocksLocal_read_def)
  show ?thesis
  proof (cases pc)
    case (Some r)
    then show ?thesis using rd assms(2)
      by (simp add: udpSocksLocal_iter_def udpSocksLocal_write_short)
  next
    case None
    with assms(3) get have l: "listen = Inr newpc" by simp
    have "slice (sl_buf ?st1) 3 (length (sl_buf ?st1)) = Inr (drop 3 buf')"
      using len by (simp add: slice_def udpBufSize_def)
    then obtain st2 where "udpSocksLocal_create String listen ?st1 raddr
        = Inr (st2, Some (FwdSock (length (sl_conns ?st1))))"
      using l by (simp add: udpSocksLocal_create_def natmap_Add_def Let_def)
    then show ?thesis using rd None assms(2)
      by (simp add: udpSocksLocal_iter_def udpSocksLocal_write_short)
  qed
qed

theorem udpSocksLocal_short_datagram_panics_witness:
  "udpSocksLocal_iter (\<lambda>a. a) ''198.51.100.1:8388'' (Inr new_socket)
       (udpSocksLocal_init two_byte_listener 300 0)
     = Some (Inl SliceBoundsOutOfRange)"
  by (rule udpSocksLocal_short_datagram_panics [where newpc = new_socket, OF two_byte_read])
     (simp_all add: udpSocksLocal_init_def)

subsection \<open>The framing of each role\<close>

lemma switch_remoteServer:
  assumes "len_Addr (P raddr) + n \<le> length buf"
  shows "\<exists>buf2. timedCopy_switch P S remoteServer buf n raddr
            = Inr (bytes_Addr (P raddr) @ take n buf, buf2) \<and> length buf2 = length buf"
proof -
  define L where "L = len_Addr (P raddr)"
  define A where "A = bytes_Addr (P raddr)"
  have lenA: "length A = L" by (simp add: A_def L_def len_bytes_Addr)
  have b: "L + n \<le> length buf" using assms by (simp add: L_def)
  define buf1 where "buf1 = copy_at buf L (take n buf)"
  have buf1: "buf1 = take L buf @ take n buf @ drop (L + n) buf"
    unfolding buf1_def using b by (subst copy_at_fits) (simp_all add: min_absorb2)
  have l1: "length buf1 = length buf" unfolding buf1_def using b by (simp add: length_copy_at)
  define buf2 where "buf2 = copy_at buf1 0 A"
  have buf2: "buf2 = A @ drop L buf1"
    unfolding buf2_def using b l1 lenA by (subst copy_at_fits) simp_all
  have l2: "length buf2 = length buf" unfolding buf2_def using l1 by (simp add: length_copy_at)
  have d: "drop L buf1 = take n buf @ drop (L + n) buf"
    using b by (simp add: buf1)
  have t: "take (L + n) buf2 = A @ take n buf"
    using b lenA by (simp add: buf2 d)
  have "timedCopy_switch P S remoteServer buf n raddr = Inr (A @ take n buf, buf2)"
    using b l2 t
    by (simp add: timedCopy_switch_def slice_def Let_def L_def[symmetric] A_def[symmetric]
        buf1_def[symmetric] buf2_def[symmetric])
  then show ?thesis using l2 by (auto simp: A_def)
qed

lemma switch_remoteServer_panic:
  assumes "len_Addr (P raddr) + n > length buf"
  shows "timedCopy_switch P S remoteServer buf n raddr = Inl SliceBoundsOutOfRange"
proof -
  define L where "L = len_Addr (P raddr)"
  show ?thesis
  proof (cases "L \<le> length buf \<and> n \<le> length buf")
    case False
    then show ?thesis by (auto simp: timedCopy_switch_def slice_def Let_def L_def)
  next
    case True
    have l1: "length (copy_at buf L (take n buf)) = length buf"
      using True by (simp add: length_copy_at)
    have l2: "length (copy_at (copy_at buf L (take n buf)) 0 (bytes_Addr (P raddr))) = length buf"
      using l1 by (simp add: length_copy_at)
    show ?thesis using True assms l2
      by (simp add: timedCopy_switch_def slice_def Let_def L_def[symmetric])
  qed
qed

lemma switch_relayClient:
  assumes "n \<le> length buf" and "len_Addr (S (take n buf)) \<le> n"
  shows "timedCopy_switch P S relayClient buf n raddr
           = Inr (drop (len_Addr (S (take n buf))) (take n buf), buf)"
  using assms by (simp add: timedCopy_switch_def slice_def Let_def drop_take)

lemma port_roundtrip: "port_of_bytes (ucast (drop_bit 8 p)) (ucast p) = p"
  unfolding port_of_bytes_def
  by (rule bit_word_eqI) (auto simp: bit_simps)

lemma unat_length_byte: "n \<le> 255 \<Longrightarrow> unat (of_nat n :: byte) = n"
  by (simp add: unat_of_nat)

lemma length_port_bytes: "length (port_bytes p) = 2"
  by (simp add: port_bytes_def)

lemma SplitAddr_ParseAddr:
  assumes "ParseAddr A = Some pre"
  shows "SplitAddr (pre @ pl) = Some pre"
proof (cases A)
  case (SocksAddr h p)
  show ?thesis
  proof (cases h)
    case (IPv4 a b c d)
    with SocksAddr assms show ?thesis
      by (auto simp: SplitAddr_def port_bytes_def)
  next
    case (DomainName hn)
    with SocksAddr assms have le: "length hn \<le> 255"
      and pre: "pre = [3, of_nat (length hn)] @ hn @ port_bytes p"
      by (auto split: if_splits)
    show ?thesis using le
      by (simp add: pre SplitAddr_def unat_length_byte length_port_bytes)
  next
    case (IPv6 bs)
    with SocksAddr assms have len: "length bs = 16" and pre: "pre = [4] @ bs @ port_bytes p"
      by (auto split: if_splits)
    show ?thesis using len
      by (simp add: pre SplitAddr_def length_port_bytes)
  qed
qed

lemma Addr_decode_ParseAddr:
  assumes "ParseAddr A = Some pre"
  shows "Addr_decode pre = Some A"
proof (cases A)
  case (SocksAddr h p)
  show ?thesis
  proof (cases h)
    case (IPv4 a b c d)
    with SocksAddr assms show ?thesis
      by (auto simp: Addr_decode_def port_bytes_def port_roundtrip)
  next
    case (DomainName hn)
    with SocksAddr assms have le: "length hn \<le> 255"
      and pre: "pre = [3, of_nat (length hn)] @ hn @ port_bytes p"
      by (auto split: if_splits)
    show ?thesis using le SocksAddr DomainName
      by (simp add: pre Addr_decode_def unat_length_byte length_port_bytes nth_append
          port_bytes_def port_roundtrip)
  next
    case (IPv6 bs)
    with SocksAddr assms have len: "length bs = 16" and pre: "pre = [4] @ bs @ port_bytes p"
      by (auto split: if_splits)
    show ?thesis using len SocksAddr IPv6
      by (simp add: pre Addr_decode_def length_port_bytes nth_append port_bytes_def port_roundtrip)
  qed
qed

text \<open>
  C2. In role \<open>remoteServer\<close>, after a successful read of \<open>n\<close> bytes from \<open>raddr\<close> whose
  encoded address and payload fit the buffer together, the loop hands \<^verbatim>\<open>dst.WriteTo\<close> the
  encoded address of \<open>raddr\<close> followed by the \<open>n\<close> bytes read, unchanged: a datagram of
  \<open>len(prefix) + n\<close> bytes.
\<close>

theorem timedCopy_remoteServer_prefix:
  assumes "ReadFrom (SetReadDeadline src (now + timeout)) now buf
             = Some (ReadOk n raddr, src', now', buf')"
    and "len_Addr (P raddr) + n \<le> length buf"
  shows "\<exists>buf''.
      timedCopy_switch P S remoteServer buf' n raddr
        = Inr (bytes_Addr (P raddr) @ take n buf', buf'')
    \<and> timedCopy_loop P S dst target src timeout remoteServer now buf =
       (case WriteTo dst (bytes_Addr (P raddr) @ take n buf') target of
          (Some e, dst') \<Rightarrow> Some (Inr e, dst', src', now')
        | (None, dst') \<Rightarrow> timedCopy_loop P S dst' target src' timeout remoteServer now' buf'')
    \<and> length (bytes_Addr (P raddr) @ take n buf') = len_Addr (P raddr) + n
    \<and> take n buf' = take (length buf) (fst (snd (hd (inbound src))))"
proof -
  from ReadFrom_ok_n [OF assms(1)] have n: "n \<le> length buf" and l: "length buf' = length buf"
    by simp_all
  from switch_remoteServer [of P raddr n buf' S] assms(2) l
  obtain buf'' where sw: "timedCopy_switch P S remoteServer buf' n raddr
        = Inr (bytes_Addr (P raddr) @ take n buf', buf'')"
    by auto
  from ReadFrom_ok_payload [OF assms(1)]
  have p: "take n buf' = take (length buf) (fst (snd (hd (inbound src))))"
    by (simp add: SetReadDeadline_def)
  have len: "length (bytes_Addr (P raddr) @ take n buf') = len_Addr (P raddr) + n"
    using n l by (simp add: len_bytes_Addr)
  show ?thesis using sw timedCopy_loop_read_ok [OF assms(1) sw] p len by blast
qed

theorem timedCopy_remoteServer_prefix_witness:
  "\<exists>buf''. timedCopy_switch ParseAddr SplitAddr remoteServer
       ([0x61, 0x62] @ replicate (udpBufSize - 2) 0) 2 target_203
     = Inr ([1, 203, 0, 113, 5, 0x23, 0x28, 0x61, 0x62], buf'')"
proof -
  have "len_Addr (ParseAddr target_203) + 2 \<le> length (replicate udpBufSize (0 :: byte))"
    by (simp add: target_203_def len_Addr_def port_bytes_def udpBufSize_def)
  from timedCopy_remoteServer_prefix
         [where P = ParseAddr and raddr = target_203 and S = SplitAddr and dst = fresh_conn
            and target = client_198, OF read_ab this]
  obtain buf'' where "timedCopy_switch ParseAddr SplitAddr remoteServer
       ([0x61, 0x62] @ replicate (udpBufSize - 2) 0) 2 target_203
     = Inr (bytes_Addr (ParseAddr target_203)
              @ take 2 ([0x61, 0x62] @ replicate (udpBufSize - 2) 0), buf'')"
    by blast
  then show ?thesis
    by (simp add: target_203_def bytes_Addr_def port_bytes_def)
qed

lemma read_full:
  "ReadFrom (SetReadDeadline (fresh_conn\<lparr>inbound := [(1, full_payload, target_v6)]\<rparr>) (0 + 300))
      0 (replicate udpBufSize 0)
   = Some (ReadOk 65527 target_v6,
       fresh_conn\<lparr>readDeadline := Some 300, inbound := [],
         calls := [SetReadDeadlineCall 300, ReadFromCall 0]\<rparr>,
       1, full_payload @ replicate 9 0)"
  by (simp add: ReadFrom_def SetReadDeadline_def fresh_conn_def Let_def stored_def
      udpBufSize_def full_payload_def)

lemma len_target_v6: "len_Addr (ParseAddr target_v6) = 19"
  by (simp add: target_v6_def len_Addr_def port_bytes_def)

text \<open>
  Without the fit in the buffer the statement of C2 fails: a reply of 65527 bytes from an
  IPv6 source, whose prefix has 19 bytes, makes \<^verbatim>\<open>buf[:len(srcAddr)+n]\<close> exceed the 65536
  bytes of the buffer, and the loop panics instead of writing.
\<close>

theorem timedCopy_remoteServer_overflow:
  "timedCopy ParseAddr SplitAddr fresh_conn client_198
      (fresh_conn\<lparr>inbound := [(1, full_payload, target_v6)]\<rparr>) 300 remoteServer 0
   = Some (Inl SliceBoundsOutOfRange, fresh_conn,
       fresh_conn\<lparr>readDeadline := Some 300, inbound := [],
         calls := [SetReadDeadlineCall 300, ReadFromCall 0]\<rparr>, 1)"
proof -
  have "length (full_payload @ replicate 9 (0 :: byte)) < len_Addr (ParseAddr target_v6) + 65527"
    by (simp add: len_target_v6 full_payload_def)
  then have "timedCopy_switch ParseAddr SplitAddr remoteServer
      (full_payload @ replicate 9 0) 65527 target_v6 = Inl SliceBoundsOutOfRange"
    by (rule switch_remoteServer_panic)
  from timedCopy_loop_read_panic [OF read_full this]
  show ?thesis by (simp add: timedCopy_def)
qed

text \<open>
  C5. For an address \<open>A\<close> with prefix \<open>pre\<close> and a payload that fits a buffer together
  with it: the \<open>remoteServer\<close> framing of the payload read from \<open>A\<close> is \<open>pre\<close> followed by
  the payload; splitting that datagram gives \<open>pre\<close>, which reads back as \<open>A\<close>; and the
  \<open>relayClient\<close> framing of that datagram is the payload.
\<close>

theorem framing_round_trip:
  assumes "ParseAddr A = Some pre"
    and "length buf = udpBufSize" and "length cbuf = udpBufSize"
    and "length pre + length pl \<le> udpBufSize"
  shows "(\<exists>buf''. timedCopy_switch ParseAddr S remoteServer (stored buf pl) (length pl) A
             = Inr (pre @ pl, buf''))
    \<and> SplitAddr (pre @ pl) = Some pre
    \<and> drop (length pre) (pre @ pl) = pl
    \<and> Addr_decode pre = Some A
    \<and> timedCopy_switch P SplitAddr relayClient (stored cbuf (pre @ pl)) (length (pre @ pl)) raddr
        = Inr (pl, stored cbuf (pre @ pl))"
proof -
  have lp: "length pl \<le> length buf" using assms(2,4) by simp
  have st: "take (length pl) (stored buf pl) = pl" "length (stored buf pl) = length buf"
    using lp by (simp_all add: stored_def)
  have "len_Addr (ParseAddr A) + length pl \<le> length (stored buf pl)"
    using assms by (simp add: len_Addr_def st)
  from switch_remoteServer [where P = ParseAddr and raddr = A and S = S, OF this]
  have a: "\<exists>buf''. timedCopy_switch ParseAddr S remoteServer (stored buf pl) (length pl) A
             = Inr (pre @ pl, buf'')"
    using assms(1) st by (auto simp: bytes_Addr_def)
  have b: "SplitAddr (pre @ pl) = Some pre"
    using assms(1) by (rule SplitAddr_ParseAddr)
  have c: "Addr_decode pre = Some A"
    using assms(1) by (rule Addr_decode_ParseAddr)
  define dg where "dg = pre @ pl"
  have ld: "length dg \<le> length cbuf" using assms(3,4) by (simp add: dg_def)
  have sc: "take (length dg) (stored cbuf dg) = dg" "length (stored cbuf dg) = length cbuf"
    using ld by (simp_all add: stored_def)
  have sp: "SplitAddr dg = Some pre" using b by (simp add: dg_def)
  have "timedCopy_switch P SplitAddr relayClient (stored cbuf dg) (length dg) raddr
          = Inr (drop (len_Addr (SplitAddr (take (length dg) (stored cbuf dg))))
                   (take (length dg) (stored cbuf dg)), stored cbuf dg)"
  proof (rule switch_relayClient)
    show "length dg \<le> length (stored cbuf dg)" using ld sc by simp
    show "len_Addr (SplitAddr (take (length dg) (stored cbuf dg))) \<le> length dg"
      by (simp only: sc sp) (simp add: len_Addr_def dg_def)
  qed
  then have "timedCopy_switch P SplitAddr relayClient (stored cbuf dg) (length dg) raddr
               = Inr (drop (length pre) dg, stored cbuf dg)"
    by (simp only: sc sp) (simp add: len_Addr_def)
  then have d: "timedCopy_switch P SplitAddr relayClient (stored cbuf (pre @ pl))
                  (length (pre @ pl)) raddr = Inr (pl, stored cbuf (pre @ pl))"
    by (simp add: dg_def)
  show ?thesis using a b c d by simp
qed

theorem framing_round_trip_witness:
  "SplitAddr ([1, 203, 0, 113, 5, 0x23, 0x28] @ [0x61, 0x62]) = Some [1, 203, 0, 113, 5, 0x23, 0x28]
   \<and> Addr_decode [1, 203, 0, 113, 5, 0x23, 0x28] = Some target_203
   \<and> timedCopy_switch ParseAddr SplitAddr relayClient
        (stored (replicate udpBufSize 0) ([1, 203, 0, 113, 5, 0x23, 0x28] @ [0x61, 0x62]))
        (length ([1, 203, 0, 113, 5, 0x23, 0x28] @ [0x61 :: byte, 0x62])) client_198
      = Inr ([0x61, 0x62],
             stored (replicate udpBufSize 0) ([1, 203, 0, 113, 5, 0x23, 0x28] @ [0x61, 0x62]))"
proof -
  have p: "ParseAddr target_203 = Some [1, 203, 0, 113, 5, 0x23, 0x28]"
    by (simp add: target_203_def port_bytes_def)
  have l: "length (replicate udpBufSize (0 :: byte)) = udpBufSize" by simp
  have f: "length [1 :: byte, 203, 0, 113, 5, 0x23, 0x28] + length [0x61 :: byte, 0x62] \<le> udpBufSize"
    by (simp add: udpBufSize_def)
  from framing_round_trip [OF p l l f, of SplitAddr ParseAddr client_198]
  show ?thesis by blast
qed

text \<open>
  Without the fit in the buffer the round trip of C5 fails at its first half: for an IPv6
  address and a payload of 65527 bytes the \<open>remoteServer\<close> framing panics.
\<close>

theorem framing_overflow:
  "ParseAddr target_v6 = Some ([4] @ replicate 16 0x20 @ [0x23, 0x28])
   \<and> timedCopy_switch ParseAddr SplitAddr remoteServer
        (stored (replicate udpBufSize 0) full_payload) (length full_payload) target_v6
      = Inl SliceBoundsOutOfRange"
proof -
  have "length (stored (replicate udpBufSize 0) full_payload)
          < len_Addr (ParseAddr target_v6) + length full_payload"
    by (simp add: len_target_v6 full_payload_def stored_def udpBufSize_def)
  then have "timedCopy_switch ParseAddr SplitAddr remoteServer
        (stored (replicate udpBufSize 0) full_payload) (length full_payload) target_v6
      = Inl SliceBoundsOutOfRange"
    by (rule switch_remoteServer_panic)
  then show ?thesis by (simp add: target_v6_def port_bytes_def)
qed

lemma switch_relayClient_nil:
  "S (take n buf) = None \<Longrightarrow> n \<le> length buf \<Longrightarrow>
   timedCopy_switch P S relayClient buf n raddr = Inr (take n buf, buf)"
  by (simp add: timedCopy_switch_def slice_def len_Addr_def)

lemma read_malformed:
  "ReadFrom (SetReadDeadline (fresh_conn\<lparr>inbound := [(1, malformed, target_203)]\<rparr>) (0 + 10))
      0 (replicate udpBufSize 0)
   = Some (ReadOk 3 target_203,
       fresh_conn\<lparr>readDeadline := Some 10, inbound := [],
         calls := [SetReadDeadlineCall 10, ReadFromCall 0]\<rparr>,
       1, malformed @ replicate (udpBufSize - 3) 0)"
  by (simp add: ReadFrom_def SetReadDeadline_def fresh_conn_def Let_def stored_def
      udpBufSize_def malformed_def)

lemma udpRemote_drain_malformed:
  assumes "Split (pkt_bytes b) = None"
  shows "udpRemote_drain_body Split Resolve pc b st =
     Inr (st\<lparr>qr_log := qr_log st @ [SplitFailed (pkt_bytes b)],
             qr_pool := fst b # qr_pool st\<rparr>)"
  using assms by (simp add: udpRemote_drain_body_def bufPool_Put_def)

text \<open>
  C4. A datagram whose leading bytes are not an address prefix is logged and dropped by
  the drain loop of \<^verbatim>\<open>udpRemote\<close>, with its buffer put back (\<open>udpRemote_drain_malformed\<close>).
  The copy loop in role \<open>relayClient\<close> has no such check: \<^verbatim>\<open>SplitAddr\<close> returns nil, \<^verbatim>\<open>len\<close> of
  nil is 0, and the loop writes the whole datagram to the destination, then reads on; here
  on the datagram 09 41 42, after which the socket is idle and the read times out.
\<close>

theorem timedCopy_relayClient_forwards_malformed:
  "SplitAddr malformed = None
   \<and> timedCopy ParseAddr SplitAddr fresh_conn client_198
        (fresh_conn\<lparr>inbound := [(1, malformed, target_203)]\<rparr>) 10 relayClient 0
     = Some (Inr Timeout, fresh_conn\<lparr>outbound := [(malformed, client_198)]\<rparr>,
         fresh_conn\<lparr>readDeadline := Some 11, inbound := [],
           calls := [SetReadDeadlineCall 10, ReadFromCall 0, SetReadDeadlineCall 11,
                     ReadFromCall 1]\<rparr>, 11)"
proof -
  have nil: "SplitAddr malformed = None"
    by (simp add: SplitAddr_def malformed_def)
  have sw: "timedCopy_switch ParseAddr SplitAddr relayClient
      (malformed @ replicate (udpBufSize - 3) 0) 3 target_203
      = Inr (malformed, malformed @ replicate (udpBufSize - 3) 0)"
    using switch_relayClient_nil [of SplitAddr 3 "malformed @ replicate (udpBufSize - 3) 0"
        ParseAddr target_203] nil
    by (simp add: malformed_def udpBufSize_def)
  have wr: "WriteTo fresh_conn malformed client_198
      = (None, fresh_conn\<lparr>outbound := [(malformed, client_198)]\<rparr>)"
    by (simp add: WriteTo_def fresh_conn_def)
  have rd2: "ReadFrom (SetReadDeadline (fresh_conn\<lparr>readDeadline := Some 10, inbound := [],
         calls := [SetReadDeadlineCall 10, ReadFromCall 0]\<rparr>) (1 + 10)) 1
         (malformed @ replicate (udpBufSize - 3) 0)
      = Some (ReadErr Timeout, fresh_conn\<lparr>readDeadline := Some 11, inbound := [],
           calls := [SetReadDeadlineCall 10, ReadFromCall 0, SetReadDeadlineCall 11,
                     ReadFromCall 1]\<rparr>, 11, malformed @ replicate (udpBufSize - 3) 0)"
    by (simp add: ReadFrom_def SetReadDeadline_def fresh_conn_def Let_def)
  show ?thesis
    using nil timedCopy_loop_read_ok [OF read_malformed sw, of fresh_conn client_198]
      timedCopy_loop_read_err [OF rd2, of ParseAddr SplitAddr
        "fresh_conn\<lparr>outbound := [(malformed, client_198)]\<rparr>" client_198 relayClient]
    by (simp add: timedCopy_def wr)
qed

subsection \<open>The call of the copy loop by the remote listener\<close>

lemma timedCopy_bind_natmap_Add:
  "timedCopy_bind (natmap_Add_call nm g) =
     Some \<lparr>tc_dst = reaper_dst g, tc_target = reaper_peer g, tc_src = reaper_src g,
           tc_timeout = natmap_timeout nm, tc_role = reaper_role g\<rparr>"
  by (simp add: natmap_Add_call_def)

lemma timedCopy_bind_flag:
  "timedCopy_bind [AddrV raddr, PacketConnV c, PacketConnV pc, DurationV t, BoolV flag] = None"
  by simp

text \<open>
  C3. The return path that \<^verbatim>\<open>udpRemote\<close> starts for a new peer calls
  \<^verbatim>\<open>timedCopy(raddr, c, pc, config.UDPTimeout, true)\<close>: the peer address stands where the
  destination socket belongs, the listening socket where the target address belongs, and
  the role is the boolean \<^verbatim>\<open>true\<close>, so the parameters of \<^verbatim>\<open>timedCopy\<close> cannot be bound and no
  role \<open>remoteServer\<close> is passed. The call in \<^verbatim>\<open>natmap.Add\<close> binds, with the role it is given.
\<close>

theorem udpRemote_return_path_call:
  "map ss_call (qr_sessions (snd (udpRemote_locked (\<lambda>a. a) (Inr new_socket)
       (queueRelay_init two_byte_listener 300 0) ''192.0.2.9:5353'')))
     = [[AddrV ''192.0.2.9:5353'', PacketConnV ListenSock, PacketConnV (FwdSock 0),
         DurationV 300, BoolV True]]
   \<and> map timedCopy_bind (map ss_call (qr_sessions (snd (udpRemote_locked (\<lambda>a. a) (Inr new_socket)
       (queueRelay_init two_byte_listener 300 0) ''192.0.2.9:5353'')))) = [None]
   \<and> map_option tc_role (timedCopy_bind (natmap_Add_call (newNATmap 300)
         \<lparr>reaper_peer = ''192.0.2.9:5353'', reaper_dst = ListenSock, reaper_src = FwdSock 0,
          reaper_role = socksClient\<rparr>)) = Some socksClient"
  by (simp add: udpRemote_locked_def relay_locked_def queueRelay_init_def Let_def
      natmap_Add_call_def)

subsection \<open>Idle sessions\<close>


lemma ReadFrom_deadline_returns:
  "readDeadline c \<noteq> None \<Longrightarrow> ReadFrom c now buf \<noteq> None"
  by (auto simp: ReadFrom_def Let_def split: if_splits option.splits list.splits)


lemma timedCopy_loop_returns:
  "timedCopy_loop P S dst target src timeout role now buf \<noteq> None"
proof (induction "length (inbound src)" arbitrary: src dst now buf rule: less_induct)
  case less
  let ?src1 = "SetReadDeadline src (now + timeout)"
  have "ReadFrom ?src1 now buf \<noteq> None"
    by (rule ReadFrom_deadline_returns) (simp add: SetReadDeadline_def)
  then obtain rr src2 now2 buf2 where rd: "ReadFrom ?src1 now buf = Some (rr, src2, now2, buf2)"
    by (cases "ReadFrom ?src1 now buf") auto
  show ?case
  proof (cases rr)
    case (ReadErr e)
    with rd timedCopy_loop_read_err [of src now timeout buf e src2 now2 buf2 P S dst target role]
    show ?thesis by simp
  next
    case (ReadOk n raddr)
    with rd have rd': "ReadFrom ?src1 now buf = Some (ReadOk n raddr, src2, now2, buf2)" by simp
    show ?thesis
    proof (cases "timedCopy_switch P S role buf2 n raddr")
      case (Inl p)
      from timedCopy_loop_read_panic [OF rd' Inl, of dst target]
      show ?thesis by simp
    next
      case (Inr db)
      obtain d buf3 where db: "db = (d, buf3)" by (cases db)
      with Inr have sw: "timedCopy_switch P S role buf2 n raddr = Inr (d, buf3)" by simp
      obtain we dst2 where wr: "WriteTo dst d target = (we, dst2)" by (cases "WriteTo dst d target")
      from ReadFrom_ok_inbound [OF rd']
      have "length (inbound src2) < length (inbound src)" by (simp add: SetReadDeadline_def)
      from less.hyps [OF this, of dst2 now2 buf3]
      show ?thesis using timedCopy_loop_read_ok [OF rd' sw, of dst target] wr
        by (cases we) simp_all
    qed
  qed
qed



lemma natmap_Add_go_returns: "natmap_Add_go P S String g st \<noteq> None"
proof -
  have "timedCopy P S (get_conn st (reaper_dst g)) (reaper_peer g)
             (get_conn st (reaper_src g)) (natmap_timeout (sl_nm st)) (reaper_role g)
             (sl_now st) \<noteq> None"
    unfolding timedCopy_def by (rule timedCopy_loop_returns)
  then show ?thesis
    by (auto simp: natmap_Add_go_def Let_def split: option.splits sum.splits prod.splits)
qed

lemma natmap_Add_go_teardown:
  assumes run: "natmap_Add_go P S String g st = Some (Inr st')"
    and src: "reaper_src g = FwdSock i" and dst: "reaper_dst g = ListenSock"
    and i: "i < length (sl_conns st)"
    and tab: "natmap_m (sl_nm st) (String (reaper_peer g)) = Some (FwdSock i)"
  shows "natmap_m (sl_nm st') (String (reaper_peer g)) = None \<and> closed (sl_conns st' ! i)"
proof -
  obtain r dst' src' now' where tc: "timedCopy P S (get_conn st (reaper_dst g)) (reaper_peer g)
             (get_conn st (reaper_src g)) (natmap_timeout (sl_nm st)) (reaper_role g)
             (sl_now st) = Some (r, dst', src', now')"
    using run by (auto simp: natmap_Add_go_def split: option.splits)
  with run obtain e where r: "r = Inr e"
    by (cases r) (auto simp: natmap_Add_go_def)
  let ?st1 = "(put_conn (put_conn st (reaper_src g) src') (reaper_dst g) dst')\<lparr>sl_now := now'\<rparr>"
  have nm: "sl_nm ?st1 = sl_nm st" and len: "length (sl_conns ?st1) = length (sl_conns st)"
    by (simp_all add: put_conn_def src dst)
  have del: "natmap_Del (sl_nm ?st1) (String (reaper_peer g))
      = (Some (FwdSock i), (sl_nm st)\<lparr>natmap_mu := natmap_mu (sl_nm st) @
            [Lock, Lookup (String (reaper_peer g)), Delete (String (reaper_peer g)), Unlock],
          natmap_m := (natmap_m (sl_nm st))(String (reaper_peer g) := None)\<rparr>)"
    using tab by (simp add: nm natmap_Del_def)
  from run tc r del
  have "st' = put_conn (?st1\<lparr>sl_nm := (sl_nm st)\<lparr>natmap_mu := natmap_mu (sl_nm st) @
            [Lock, Lookup (String (reaper_peer g)), Delete (String (reaper_peer g)), Unlock],
          natmap_m := (natmap_m (sl_nm st))(String (reaper_peer g) := None)\<rparr>\<rparr>)
          (FwdSock i) (Close (get_conn ?st1 (FwdSock i)))"
    by (simp add: natmap_Add_go_def Let_def)
  then show ?thesis using i len
    by (simp add: put_conn_def Close_def src dst)
qed






subsection \<open>The critical section of a listener with queues\<close>

lemma relay_locked_present:
  "qr_m st (String raddr) = Some i \<Longrightarrow>
   relay_locked flag String listen st raddr
     = (Some i, st\<lparr>qr_mu := qr_mu st @ [Lock, Lookup (String raddr), Unlock]\<rparr>)"
  by (simp add: relay_locked_def Let_def)

lemma relay_locked_new:
  "qr_m st (String raddr) = None \<Longrightarrow>
   relay_locked flag String (Inr newpc) st raddr =
     (Some (length (qr_chans st)),
      st\<lparr>qr_mu := qr_mu st @ [Lock, Lookup (String raddr), Insert (String raddr), Unlock],
         qr_m := (qr_m st)(String raddr \<mapsto> length (qr_chans st)),
         qr_chans := qr_chans st @ [make_chan 1],
         qr_conns := qr_conns st @ [newpc],
         qr_sessions := qr_sessions st @
           [\<lparr>ss_key = String raddr, ss_ch = length (qr_chans st), ss_pc = length (qr_conns st),
             ss_call = [AddrV raddr, PacketConnV ListenSock,
                        PacketConnV (FwdSock (length (qr_conns st))),
                        DurationV (qr_timeout st), BoolV flag],
             ss_stage = Copying\<rparr>]\<rparr>)"
  by (simp add: relay_locked_def Let_def)

subsection \<open>One session per peer\<close>

lemma filter_update_split:
  assumes "i < length xs"
  shows "filter P (xs[i := y])
           = filter P (take i xs) @ (if P y then [y] else []) @ filter P (drop (Suc i) xs)"
  using assms by (simp add: upd_conv_take_nth_drop)

lemma filter_nth_split:
  assumes "i < length xs"
  shows "filter P xs
           = filter P (take i xs) @ (if P (xs ! i) then [xs ! i] else []) @ filter P (drop (Suc i) xs)"
proof -
  have "xs = take i xs @ xs ! i # drop (Suc i) xs"
    using assms by (simp add: id_take_nth_drop)
  then have "filter P xs = filter P (take i xs @ xs ! i # drop (Suc i) xs)" by simp
  then show ?thesis by simp
qed

lemma filter_update_same:
  assumes "i < length xs" and "P y = P (xs ! i)" and "f y = f (xs ! i)"
  shows "map f (filter P (xs[i := y])) = map f (filter P xs)"
proof -
  have "map f (filter P (xs[i := y]))
          = map f (filter P (take i xs) @ (if P y then [y] else []) @ filter P (drop (Suc i) xs))"
    by (simp only: filter_update_split [OF assms(1)])
  also have "\<dots> = map f (filter P (take i xs) @ (if P (xs ! i) then [xs ! i] else [])
                          @ filter P (drop (Suc i) xs))"
    using assms(2,3) by simp
  also have "\<dots> = map f (filter P xs)"
    by (simp only: filter_nth_split [OF assms(1), symmetric])
  finally show ?thesis .
qed

lemma filter_update_gone:
  assumes "i < length xs" and "P (xs ! i)" and "\<not> P y" and "length (filter P xs) \<le> 1"
  shows "filter P (xs[i := y]) = []"
proof -
  from assms(4) filter_nth_split [OF assms(1), of P] assms(2)
  have "filter P (take i xs) = [] \<and> filter P (drop (Suc i) xs) = []"
    by (cases "filter P (take i xs)"; cases "filter P (drop (Suc i) xs)") auto
  then show ?thesis
    using assms(3) by (simp add: filter_update_split [OF assms(1)])
qed

lemma table_matches_locked:
  assumes "table_matches st"
  shows "table_matches (snd (relay_locked flag String listen st raddr))"
proof (cases "qr_m st (String raddr)")
  case (Some ch)
  then show ?thesis using assms
    by (simp add: relay_locked_def Let_def table_matches_def live_chs_def)
next
  case None
  show ?thesis
  proof (cases listen)
    case (Inl e)
    then show ?thesis using assms None
      by (simp add: relay_locked_def Let_def table_matches_def live_chs_def)
  next
    case (Inr newpc)
    have "live_chs st (String raddr) = []"
      using assms None by (simp add: table_matches_def)
    then show ?thesis using assms None Inr
      by (auto simp: relay_locked_def Let_def table_matches_def live_chs_def)
  qed
qed

lemma table_matches_close:
  assumes "table_matches st" and "i < length (qr_sessions st)"
    and "ss_stage (qr_sessions st ! i) = Copying"
  shows "table_matches (teardown_close i st)"
proof -
  have "live_chs (teardown_close i st) k = live_chs st k" for k
    unfolding live_chs_def teardown_close_def Let_def using assms(2,3)
    by (simp add: filter_update_same)
  then show ?thesis using assms(1) by (simp add: table_matches_def teardown_close_def Let_def)
qed

lemma teardown_unmap_Inr:
  assumes "teardown_unmap i st = Inr st'"
  shows "qr_m st' = (qr_m st)(ss_key (qr_sessions st ! i) := None)"
    and "qr_sessions st' = (qr_sessions st)[i := (qr_sessions st ! i)\<lparr>ss_stage := Gone\<rparr>]"
    and "qr_mu st' = qr_mu st @ [Lock, Lookup (ss_key (qr_sessions st ! i)),
                                 Delete (ss_key (qr_sessions st ! i)), Unlock]"
  using assms
  by (auto simp: teardown_unmap_def Let_def split: option.splits if_splits)

lemma table_matches_unmap:
  assumes "table_matches st" and "i < length (qr_sessions st)"
    and "ss_stage (qr_sessions st ! i) = PcClosed" and un: "teardown_unmap i st = Inr st'"
  shows "table_matches st'"
proof -
  let ?s = "qr_sessions st ! i"
  let ?P = "\<lambda>k s. ss_key s = k \<and> ss_stage s \<noteq> Gone"
  note st' = teardown_unmap_Inr [OF un]
  have one: "length (filter (?P k) (qr_sessions st)) \<le> 1" for k
  proof -
    have "length (live_chs st k) \<le> 1"
      using assms(1) by (simp add: table_matches_def split: option.splits)
    then show ?thesis by (simp add: live_chs_def)
  qed
  have own: "live_chs st' (ss_key ?s) = []"
    unfolding live_chs_def st' using assms(2,3) one [of "ss_key ?s"]
    by (simp add: filter_update_gone)
  have other: "live_chs st' k = live_chs st k" if "k \<noteq> ss_key ?s" for k
    unfolding live_chs_def st' using assms(2) that
    by (simp add: filter_update_same)
  show ?thesis
    unfolding table_matches_def
  proof
    fix k
    show "live_chs st' k = (case qr_m st' k of None \<Rightarrow> [] | Some ch \<Rightarrow> [ch])"
    proof (cases "k = ss_key ?s")
      case True
      then show ?thesis using own by (simp add: st')
    next
      case False
      then show ?thesis using other [OF False] assms(1)
        by (simp add: table_matches_def st')
    qed
  qed
qed

lemma relay_reach_table_matches:
  assumes "relay_reach flag String st0 st" and "table_matches st0"
  shows "table_matches st"
  using assms
proof (induction rule: relay_reach.induct)
  case relay_start
  then show ?case by simp
next
  case (relay_arrive st listen raddr)
  then show ?case by (simp add: table_matches_locked)
next
  case (relay_close st i)
  then show ?case by (simp add: table_matches_close)
next
  case (relay_unmap st i st')
  then show ?case using table_matches_unmap by blast
next
  case (relay_other st st')
  then show ?case by (simp add: table_matches_def live_chs_def)
qed

lemma checked_inserts_append_Lock:
  "checked_inserts k b (es @ Lock # rest) = (checked_inserts k b es \<and> checked_inserts k False rest)"
  by (induction k b es rule: checked_inserts.induct) auto

lemma checked_inserts_locked:
  assumes "checked_inserts k False (qr_mu st)"
  shows "checked_inserts k False (qr_mu (snd (relay_locked flag String listen st raddr)))"
  using assms
  by (auto simp: relay_locked_def Let_def checked_inserts_append_Lock
      split: option.splits sum.splits)

lemma relay_reach_checked_inserts:
  assumes "relay_reach flag String st0 st" and "checked_inserts k False (qr_mu st0)"
  shows "checked_inserts k False (qr_mu st)"
  using assms
proof (induction rule: relay_reach.induct)
  case relay_start
  then show ?case by simp
next
  case (relay_arrive st listen raddr)
  then show ?case by (simp add: checked_inserts_locked)
next
  case (relay_close st i)
  then show ?case by (simp add: teardown_close_def Let_def)
next
  case (relay_unmap st i st')
  then show ?case
    by (simp add: teardown_unmap_Inr(3) [OF relay_unmap.hyps(4)] checked_inserts_append_Lock)
next
  case (relay_other st st')
  then show ?case by simp
qed

lemma filter_nth_nonempty:
  "i < length xs \<Longrightarrow> P (xs ! i) \<Longrightarrow> filter P xs \<noteq> []"
  by (metis filter_empty_conv nth_mem)

lemma udpSocksLocal_read_table:
  assumes "udpSocksLocal_read String st = Some (st', res)"
  shows "natmap_m (sl_nm st') = natmap_m (sl_nm st) \<and> sl_reapers st' = sl_reapers st
    \<and> (\<forall>n raddr. res = Some (n, raddr, None) \<longrightarrow> natmap_m (sl_nm st) (String raddr) = None)"
  using assms
  by (auto simp: udpSocksLocal_read_def natmap_Get_def
      split: option.splits prod.splits read_result.splits)

lemma udpSocksLocal_write_table:
  assumes "udpSocksLocal_write srvAddr st pc n = Inr st'"
  shows "sl_nm st' = sl_nm st \<and> sl_reapers st' = sl_reapers st"
  using assms
  by (auto simp: udpSocksLocal_write_def split: sum.splits prod.splits option.splits)

lemma natmap_matches_read:
  assumes "natmap_matches String r" and "udpSocksLocal_read String (sr_st r) = Some (st', res)"
  shows "natmap_matches String (r\<lparr>sr_st := st', sr_pending := res\<rparr>)"
  using assms(1) udpSocksLocal_read_table [OF assms(2)]
  by (simp add: natmap_matches_def live_srcs_def)

lemma natmap_matches_write:
  assumes "natmap_matches String r" and "udpSocksLocal_write srvAddr (sr_st r) pc n = Inr st'"
  shows "natmap_matches String (r\<lparr>sr_st := st', sr_pending := None\<rparr>)"
  using assms(1) udpSocksLocal_write_table [OF assms(2)]
  by (simp add: natmap_matches_def live_srcs_def)

lemma natmap_matches_create:
  assumes inv: "natmap_matches String r" and pend: "sr_pending r = Some (n, raddr, None)"
    and cr: "udpSocksLocal_create String listen (sr_st r) raddr = Inr (st', pco)"
  shows "natmap_matches String
       (r\<lparr>sr_st := st',
          sr_pending := (case pco of None \<Rightarrow> None | Some pc \<Rightarrow> Some (n, raddr, Some pc)),
          sr_stages := (case pco of None \<Rightarrow> sr_stages r | Some pc \<Rightarrow> sr_stages r @ [Running])\<rparr>)"
proof (cases listen)
  case (Inl e)
  with cr have "st' = (sr_st r)\<lparr>sl_log := sl_log (sr_st r) @ [LocalListenError e]\<rparr>" "pco = None"
    by (auto simp: udpSocksLocal_create_def)
  then show ?thesis using inv by (simp add: natmap_matches_def live_srcs_def)
next
  case (Inr newpc)
  let ?st = "sr_st r"
  let ?pc = "FwdSock (length (sl_conns ?st))"
  let ?g = "\<lparr>reaper_peer = raddr, reaper_dst = ListenSock, reaper_src = ?pc,
            reaper_role = socksClient\<rparr>"
  from cr Inr have st': "st' = ?st\<lparr>sl_conns := sl_conns ?st @ [newpc],
        sl_nm := natmap_Set (sl_nm ?st) (String raddr) ?pc,
        sl_reapers := sl_reapers ?st @ [?g], sl_log := sl_log ?st @ [SocksTunnel]\<rparr>"
    and pco: "pco = Some ?pc"
    by (auto simp: udpSocksLocal_create_def natmap_Add_def Let_def split: sum.splits)
  from inv pend have none: "natmap_m (sl_nm ?st) (String raddr) = None"
    and len: "length (sr_stages r) = length (sl_reapers ?st)"
    and live: "\<And>k. live_srcs String r k
             = (case natmap_m (sl_nm ?st) k of None \<Rightarrow> [] | Some pc \<Rightarrow> [pc])"
    by (simp_all add: natmap_matches_def)
  have empty: "live_srcs String r (String raddr) = []"
    using live [of "String raddr"] none by simp
  show ?thesis
    unfolding natmap_matches_def
  proof (intro conjI allI impI)
    show "length (sr_stages (r\<lparr>sr_st := st',
          sr_pending := (case pco of None \<Rightarrow> None | Some pc \<Rightarrow> Some (n, raddr, Some pc)),
          sr_stages := (case pco of None \<Rightarrow> sr_stages r | Some pc \<Rightarrow> sr_stages r @ [Running])\<rparr>))
        = length (sl_reapers (sr_st (r\<lparr>sr_st := st',
          sr_pending := (case pco of None \<Rightarrow> None | Some pc \<Rightarrow> Some (n, raddr, Some pc)),
          sr_stages := (case pco of None \<Rightarrow> sr_stages r | Some pc \<Rightarrow> sr_stages r @ [Running])\<rparr>)))"
      using len by (simp add: st' pco)
  next
    fix k
    show "live_srcs String (r\<lparr>sr_st := st',
          sr_pending := (case pco of None \<Rightarrow> None | Some pc \<Rightarrow> Some (n, raddr, Some pc)),
          sr_stages := (case pco of None \<Rightarrow> sr_stages r | Some pc \<Rightarrow> sr_stages r @ [Running])\<rparr>) k
        = (case natmap_m (sl_nm (sr_st (r\<lparr>sr_st := st',
          sr_pending := (case pco of None \<Rightarrow> None | Some pc \<Rightarrow> Some (n, raddr, Some pc)),
          sr_stages := (case pco of None \<Rightarrow> sr_stages r | Some pc \<Rightarrow> sr_stages r @ [Running])\<rparr>))) k of
             None \<Rightarrow> [] | Some pc \<Rightarrow> [pc])"
      using live [of k] empty len
      by (auto simp: st' pco live_srcs_def natmap_Set_def)
  next
    fix n' raddr'
    assume "sr_pending (r\<lparr>sr_st := st',
          sr_pending := (case pco of None \<Rightarrow> None | Some pc \<Rightarrow> Some (n, raddr, Some pc)),
          sr_stages := (case pco of None \<Rightarrow> sr_stages r | Some pc \<Rightarrow> sr_stages r @ [Running])\<rparr>)
        = Some (n', raddr', None)"
    then show "natmap_m (sl_nm (sr_st (r\<lparr>sr_st := st',
          sr_pending := (case pco of None \<Rightarrow> None | Some pc \<Rightarrow> Some (n, raddr, Some pc)),
          sr_stages := (case pco of None \<Rightarrow> sr_stages r | Some pc \<Rightarrow> sr_stages r @ [Running])\<rparr>)))
        (String raddr') = None"
      by (simp add: pco)
  qed
qed

lemma natmap_matches_del:
  assumes inv: "natmap_matches String r" and i: "i < length (sr_stages r)"
    and run: "sr_stages r ! i = Running"
    and del: "natmap_Del (sl_nm (sr_st r)) (String (reaper_peer (sl_reapers (sr_st r) ! i)))
                = (pc, nm')"
  shows "natmap_matches String
       (r\<lparr>sr_st := (sr_st r)\<lparr>sl_nm := nm'\<rparr>, sr_stages := (sr_stages r)[i := Deleted pc]\<rparr>)"
proof -
  let ?st = "sr_st r"
  let ?g = "sl_reapers ?st ! i"
  let ?k = "String (reaper_peer ?g)"
  let ?zs = "zip (sl_reapers ?st) (sr_stages r)"
  let ?P = "\<lambda>k (g, stg). String (reaper_peer g) = k \<and> stg = Running"
  from inv have len: "length (sr_stages r) = length (sl_reapers ?st)"
    and live: "\<And>k. live_srcs String r k
             = (case natmap_m (sl_nm ?st) k of None \<Rightarrow> [] | Some pc \<Rightarrow> [pc])"
    and pend: "\<And>n raddr. sr_pending r = Some (n, raddr, None)
             \<Longrightarrow> natmap_m (sl_nm ?st) (String raddr) = None"
    by (simp_all add: natmap_matches_def)
  have iz: "i < length ?zs" using i len by simp
  have zi: "?zs ! i = (?g, Running)" using i len run by simp
  have upd: "zip (sl_reapers ?st) ((sr_stages r)[i := Deleted pc]) = ?zs[i := (?g, Deleted pc)]"
    using i len by (metis list_update_id zip_update)
  have m': "natmap_m nm' = (natmap_m (sl_nm ?st))(?k := None)"
    using del by (auto simp: natmap_Del_def split: option.splits)
  have one: "length (filter (?P k) ?zs) \<le> 1" for k
  proof -
    have "length (live_srcs String r k) \<le> 1"
      using live [of k] by (simp split: option.splits)
    then show ?thesis by (simp add: live_srcs_def)
  qed
  have own: "filter (?P ?k) (?zs[i := (?g, Deleted pc)]) = []"
    by (rule filter_update_gone [OF iz _ _ one]) (simp_all add: zi)
  have other: "map (\<lambda>(g, stg). reaper_src g) (filter (?P k) (?zs[i := (?g, Deleted pc)]))
      = map (\<lambda>(g, stg). reaper_src g) (filter (?P k) ?zs)" if "k \<noteq> ?k" for k
    by (rule filter_update_same [OF iz]) (simp_all add: zi that [symmetric])
  show ?thesis
    unfolding natmap_matches_def
  proof (intro conjI allI impI)
    show "length (sr_stages (r\<lparr>sr_st := ?st\<lparr>sl_nm := nm'\<rparr>,
              sr_stages := (sr_stages r)[i := Deleted pc]\<rparr>))
        = length (sl_reapers (sr_st (r\<lparr>sr_st := ?st\<lparr>sl_nm := nm'\<rparr>,
              sr_stages := (sr_stages r)[i := Deleted pc]\<rparr>)))"
      using len by simp
  next
    fix k
    show "live_srcs String (r\<lparr>sr_st := ?st\<lparr>sl_nm := nm'\<rparr>,
              sr_stages := (sr_stages r)[i := Deleted pc]\<rparr>) k
        = (case natmap_m (sl_nm (sr_st (r\<lparr>sr_st := ?st\<lparr>sl_nm := nm'\<rparr>,
              sr_stages := (sr_stages r)[i := Deleted pc]\<rparr>))) k of
             None \<Rightarrow> [] | Some pc \<Rightarrow> [pc])"
    proof (cases "k = ?k")
      case True
      then show ?thesis using own by (simp add: live_srcs_def upd m')
    next
      case False
      then show ?thesis using other [OF False] live [of k]
        by (simp add: live_srcs_def upd m')
    qed
  next
    fix n raddr
    assume "sr_pending (r\<lparr>sr_st := ?st\<lparr>sl_nm := nm'\<rparr>,
              sr_stages := (sr_stages r)[i := Deleted pc]\<rparr>) = Some (n, raddr, None)"
    then have "natmap_m (sl_nm ?st) (String raddr) = None" using pend by simp
    then show "natmap_m (sl_nm (sr_st (r\<lparr>sr_st := ?st\<lparr>sl_nm := nm'\<rparr>,
              sr_stages := (sr_stages r)[i := Deleted pc]\<rparr>))) (String raddr) = None"
      by (simp add: m')
  qed
qed

lemma natmap_matches_close:
  assumes inv: "natmap_matches String r" and i: "i < length (sr_stages r)"
    and stg: "sr_stages r ! i = Deleted pc"
  shows "natmap_matches String
       (r\<lparr>sr_st := (case pc of
                       None \<Rightarrow> sr_st r
                     | Some p \<Rightarrow> put_conn (sr_st r) p (Close (get_conn (sr_st r) p))),
          sr_stages := (sr_stages r)[i := Ended]\<rparr>)"
proof -
  let ?st = "sr_st r"
  let ?st' = "case pc of None \<Rightarrow> ?st | Some p \<Rightarrow> put_conn ?st p (Close (get_conn ?st p))"
  let ?g = "sl_reapers ?st ! i"
  let ?zs = "zip (sl_reapers ?st) (sr_stages r)"
  from inv have len: "length (sr_stages r) = length (sl_reapers ?st)"
    by (simp add: natmap_matches_def)
  have same: "sl_nm ?st' = sl_nm ?st" "sl_reapers ?st' = sl_reapers ?st"
    by (simp_all add: put_conn_def split: option.splits sockref.splits)
  have iz: "i < length ?zs" using i len by simp
  have zi: "?zs ! i = (?g, Deleted pc)" using i len stg by simp
  have upd: "zip (sl_reapers ?st) ((sr_stages r)[i := Ended]) = ?zs[i := (?g, Ended)]"
    using i len by (metis list_update_id zip_update)
  have "live_srcs String (r\<lparr>sr_st := ?st', sr_stages := (sr_stages r)[i := Ended]\<rparr>) k
          = live_srcs String r k" for k
    unfolding live_srcs_def
    by (simp add: same upd) (rule filter_update_same [OF iz], simp_all add: zi)
  then show ?thesis using inv
    by (simp add: natmap_matches_def same)
qed

lemma socks_reach_natmap_matches:
  assumes "socks_reach String r0 r" and "natmap_matches String r0"
  shows "natmap_matches String r"
  using assms
proof (induction rule: socks_reach.induct)
  case socks_start
  then show ?case by simp
next
  case (socks_read r st' res)
  then show ?case by (simp add: natmap_matches_read)
next
  case (socks_create r n raddr listen st' pco)
  then show ?case by (simp add: natmap_matches_create)
next
  case (socks_write r n raddr pc srvAddr st')
  from socks_write.IH [OF socks_write.prems] socks_write.hyps(3)
  show ?case by (rule natmap_matches_write)
next
  case (socks_del r i pc nm')
  then show ?case by (simp add: natmap_matches_del)
next
  case (socks_close r i pc)
  then show ?case by (simp add: natmap_matches_close)
next
  case (socks_other r st')
  then show ?case by (simp add: natmap_matches_def live_srcs_def)
qed

lemma table_matches_init: "table_matches (queueRelay_init c timeout now)"
  by (simp add: table_matches_def live_chs_def queueRelay_init_def)

lemma natmap_matches_init: "natmap_matches String (socksRun_init c timeout now)"
  by (simp add: natmap_matches_def live_srcs_def socksRun_init_def udpSocksLocal_init_def
      newNATmap_def)

text \<open>
  C1. In every state that \<^verbatim>\<open>udpLocal\<close> or \<^verbatim>\<open>udpRemote\<close> and their goroutines can reach, each
  peer has at most one session that is not torn down, and the table holds exactly that
  session's channel; every insertion into the table happens in the critical section that
  looked the key up; an arrival for a peer that is in the table leaves with the channel of
  that session and creates nothing. In every state that \<^verbatim>\<open>udpSocksLocal\<close> and the goroutines
  of \<^verbatim>\<open>natmap.Add\<close> can reach, each peer has at most one goroutine that has not yet called
  \<^verbatim>\<open>Del\<close>, and the table holds exactly that goroutine's socket; while the listener holds
  nil from \<^verbatim>\<open>Get\<close> for a peer, the table has no entry for the peer; \<^verbatim>\<open>Get\<close> for a peer in
  the table returns the stored socket. There the lookup is the critical section of \<^verbatim>\<open>Get\<close>
  and the insertion the critical section of \<^verbatim>\<open>Set\<close>.
\<close>

theorem one_session_per_peer:
  "(relay_reach flag String (queueRelay_init c timeout now) st \<longrightarrow>
      (\<forall>k. live_chs st k = (case qr_m st k of None \<Rightarrow> [] | Some ch \<Rightarrow> [ch]))
    \<and> (\<forall>k. length (live_chs st k) \<le> 1)
    \<and> (\<forall>k. checked_inserts k False (qr_mu st))
    \<and> (\<forall>raddr ch listen. qr_m st (String raddr) = Some ch \<longrightarrow>
          udpLocal_locked String listen st raddr
            = (Some ch, st\<lparr>qr_mu := qr_mu st @ [Lock, Lookup (String raddr), Unlock]\<rparr>)
        \<and> udpRemote_locked String listen st raddr
            = (Some ch, st\<lparr>qr_mu := qr_mu st @ [Lock, Lookup (String raddr), Unlock]\<rparr>)))
   \<and>
   (socks_reach String (socksRun_init c timeout now) r \<longrightarrow>
      (\<forall>k. live_srcs String r k
             = (case natmap_m (sl_nm (sr_st r)) k of None \<Rightarrow> [] | Some pc \<Rightarrow> [pc]))
    \<and> (\<forall>k. length (live_srcs String r k) \<le> 1)
    \<and> (\<forall>n raddr. sr_pending r = Some (n, raddr, None)
          \<longrightarrow> natmap_m (sl_nm (sr_st r)) (String raddr) = None)
    \<and> (\<forall>raddr pc. natmap_m (sl_nm (sr_st r)) (String raddr) = Some pc
          \<longrightarrow> fst (natmap_Get (sl_nm (sr_st r)) (String raddr)) = Some pc))
   \<and>
   (natmap_mu (snd (natmap_Get nm key)) = natmap_mu nm @ [RLock, Lookup key, RUnlock]
    \<and> natmap_mu (natmap_Set nm key pc) = natmap_mu nm @ [Lock, Insert key, Unlock])"
proof (intro conjI impI)
  assume reach: "relay_reach flag String (queueRelay_init c timeout now) st"
  from relay_reach_table_matches [OF reach table_matches_init]
  have tm: "\<forall>k. live_chs st k = (case qr_m st k of None \<Rightarrow> [] | Some ch \<Rightarrow> [ch])"
    by (simp add: table_matches_def)
  show "\<forall>k. live_chs st k = (case qr_m st k of None \<Rightarrow> [] | Some ch \<Rightarrow> [ch])"
    by (rule tm)
  show "\<forall>k. length (live_chs st k) \<le> 1"
    using tm by (simp split: option.splits)
  show "\<forall>k. checked_inserts k False (qr_mu st)"
  proof
    fix k
    show "checked_inserts k False (qr_mu st)"
      by (rule relay_reach_checked_inserts [OF reach]) (simp add: queueRelay_init_def)
  qed
  show "\<forall>raddr ch listen. qr_m st (String raddr) = Some ch \<longrightarrow>
          udpLocal_locked String listen st raddr
            = (Some ch, st\<lparr>qr_mu := qr_mu st @ [Lock, Lookup (String raddr), Unlock]\<rparr>)
        \<and> udpRemote_locked String listen st raddr
            = (Some ch, st\<lparr>qr_mu := qr_mu st @ [Lock, Lookup (String raddr), Unlock]\<rparr>)"
    by (simp add: udpLocal_locked_def udpRemote_locked_def relay_locked_present)
next
  assume reach: "socks_reach String (socksRun_init c timeout now) r"
  from socks_reach_natmap_matches [OF reach natmap_matches_init]
  have nmm: "natmap_matches String r" .
  then have tm: "\<forall>k. live_srcs String r k
             = (case natmap_m (sl_nm (sr_st r)) k of None \<Rightarrow> [] | Some pc \<Rightarrow> [pc])"
    by (simp add: natmap_matches_def)
  show "\<forall>k. live_srcs String r k
             = (case natmap_m (sl_nm (sr_st r)) k of None \<Rightarrow> [] | Some pc \<Rightarrow> [pc])"
    by (rule tm)
  show "\<forall>k. length (live_srcs String r k) \<le> 1"
    using tm by (simp split: option.splits)
  show "\<forall>n raddr. sr_pending r = Some (n, raddr, None)
          \<longrightarrow> natmap_m (sl_nm (sr_st r)) (String raddr) = None"
    using nmm by (simp add: natmap_matches_def)
  show "\<forall>raddr pc. natmap_m (sl_nm (sr_st r)) (String raddr) = Some pc
          \<longrightarrow> fst (natmap_Get (sl_nm (sr_st r)) (String raddr)) = Some pc"
    by (simp add: natmap_Get_def)
next
  show "natmap_mu (snd (natmap_Get nm key)) = natmap_mu nm @ [RLock, Lookup key, RUnlock]"
    by (simp add: natmap_Get_def)
next
  show "natmap_mu (natmap_Set nm key pc) = natmap_mu nm @ [Lock, Insert key, Unlock]"
    by (simp add: natmap_Set_def)
qed

lemma first_arrival_remote:
  "snd (relay_locked True (\<lambda>a. a) (Inr new_socket) (queueRelay_init four_byte_listener 300 0)
          ''192.0.2.9:5353'')
   = (queueRelay_init four_byte_listener 300 0)
       \<lparr>qr_mu := [Lock, Lookup ''192.0.2.9:5353'', Insert ''192.0.2.9:5353'', Unlock],
        qr_m := [''192.0.2.9:5353'' \<mapsto> 0],
        qr_chans := [make_chan 1], qr_conns := [new_socket],
        qr_sessions := [\<lparr>ss_key = ''192.0.2.9:5353'', ss_ch = 0, ss_pc = 0,
                         ss_call = [AddrV ''192.0.2.9:5353'', PacketConnV ListenSock,
                                    PacketConnV (FwdSock 0), DurationV 300, BoolV True],
                         ss_stage = Copying\<rparr>]\<rparr>"
  by (simp add: relay_locked_def queueRelay_init_def Let_def)

lemma first_read_socks:
  "udpSocksLocal_read (\<lambda>a. a) (udpSocksLocal_init four_byte_listener 300 0)
   = Some ((udpSocksLocal_init four_byte_listener 300 0)
             \<lparr>sl_c := four_byte_listener\<lparr>inbound := [], calls := [ReadFromCall 0]\<rparr>,
              sl_now := 0, sl_buf := [0, 0, 0, 1] @ replicate (udpBufSize - 4) 0,
              sl_nm := (newNATmap 300)\<lparr>natmap_mu := [RLock, Lookup ''192.0.2.9:5353'', RUnlock]\<rparr>\<rparr>,
           Some (4, ''192.0.2.9:5353'', None))"
  by (simp add: udpSocksLocal_read_def udpSocksLocal_init_def ReadFrom_def four_byte_listener_def
      Let_def stored_def udpBufSize_def natmap_Get_def newNATmap_def)

lemma first_create_socks:
  "udpSocksLocal_create (\<lambda>a. a) (Inr new_socket)
     ((udpSocksLocal_init four_byte_listener 300 0)
             \<lparr>sl_c := four_byte_listener\<lparr>inbound := [], calls := [ReadFromCall 0]\<rparr>,
              sl_now := 0, sl_buf := [0, 0, 0, 1] @ replicate (udpBufSize - 4) 0,
              sl_nm := (newNATmap 300)\<lparr>natmap_mu := [RLock, Lookup ''192.0.2.9:5353'', RUnlock]\<rparr>\<rparr>)
     ''192.0.2.9:5353''
   = Inr ((udpSocksLocal_init four_byte_listener 300 0)
             \<lparr>sl_c := four_byte_listener\<lparr>inbound := [], calls := [ReadFromCall 0]\<rparr>,
              sl_now := 0, sl_buf := [0, 0, 0, 1] @ replicate (udpBufSize - 4) 0,
              sl_nm := \<lparr>natmap_mu = [RLock, Lookup ''192.0.2.9:5353'', RUnlock,
                                      Lock, Insert ''192.0.2.9:5353'', Unlock],
                         natmap_m = [''192.0.2.9:5353'' \<mapsto> FwdSock 0], natmap_timeout = 300\<rparr>,
              sl_conns := [new_socket],
              sl_reapers := [\<lparr>reaper_peer = ''192.0.2.9:5353'', reaper_dst = ListenSock,
                              reaper_src = FwdSock 0, reaper_role = socksClient\<rparr>],
              sl_log := [SocksTunnel]\<rparr>,
          Some (FwdSock 0))"
  by (simp add: udpSocksLocal_create_def udpSocksLocal_init_def natmap_Add_def natmap_Set_def
      newNATmap_def Let_def slice_def udpBufSize_def)


theorem one_session_per_peer_witness:
  "live_chs (snd (relay_locked True (\<lambda>a. a) (Inr new_socket)
               (queueRelay_init four_byte_listener 300 0) ''192.0.2.9:5353'')) ''192.0.2.9:5353''
     = [0]
   \<and> live_srcs (\<lambda>a. a)
        \<lparr>sr_st = (udpSocksLocal_init four_byte_listener 300 0)
             \<lparr>sl_c := four_byte_listener\<lparr>inbound := [], calls := [ReadFromCall 0]\<rparr>,
              sl_now := 0, sl_buf := [0, 0, 0, 1] @ replicate (udpBufSize - 4) 0,
              sl_nm := \<lparr>natmap_mu = [RLock, Lookup ''192.0.2.9:5353'', RUnlock,
                                      Lock, Insert ''192.0.2.9:5353'', Unlock],
                         natmap_m = [''192.0.2.9:5353'' \<mapsto> FwdSock 0], natmap_timeout = 300\<rparr>,
              sl_conns := [new_socket],
              sl_reapers := [\<lparr>reaper_peer = ''192.0.2.9:5353'', reaper_dst = ListenSock,
                              reaper_src = FwdSock 0, reaper_role = socksClient\<rparr>],
              sl_log := [SocksTunnel]\<rparr>,
         sr_pending = Some (4, ''192.0.2.9:5353'', Some (FwdSock 0)),
         sr_stages = [Running]\<rparr> ''192.0.2.9:5353''
     = [FwdSock 0]"
proof -
  let ?q0 = "queueRelay_init four_byte_listener 300 0"
  let ?q1 = "snd (relay_locked True (\<lambda>a. a) (Inr new_socket) ?q0 ''192.0.2.9:5353'')"
  let ?r0 = "socksRun_init four_byte_listener 300 0"
  let ?s1 = "(udpSocksLocal_init four_byte_listener 300 0)
             \<lparr>sl_c := four_byte_listener\<lparr>inbound := [], calls := [ReadFromCall 0]\<rparr>,
              sl_now := 0, sl_buf := [0, 0, 0, 1] @ replicate (udpBufSize - 4) 0,
              sl_nm := (newNATmap 300)\<lparr>natmap_mu := [RLock, Lookup ''192.0.2.9:5353'', RUnlock]\<rparr>\<rparr>"
  let ?s2 = "(udpSocksLocal_init four_byte_listener 300 0)
             \<lparr>sl_c := four_byte_listener\<lparr>inbound := [], calls := [ReadFromCall 0]\<rparr>,
              sl_now := 0, sl_buf := [0, 0, 0, 1] @ replicate (udpBufSize - 4) 0,
              sl_nm := \<lparr>natmap_mu = [RLock, Lookup ''192.0.2.9:5353'', RUnlock,
                                      Lock, Insert ''192.0.2.9:5353'', Unlock],
                         natmap_m = [''192.0.2.9:5353'' \<mapsto> FwdSock 0], natmap_timeout = 300\<rparr>,
              sl_conns := [new_socket],
              sl_reapers := [\<lparr>reaper_peer = ''192.0.2.9:5353'', reaper_dst = ListenSock,
                              reaper_src = FwdSock 0, reaper_role = socksClient\<rparr>],
              sl_log := [SocksTunnel]\<rparr>"
  let ?r1 = "?r0\<lparr>sr_st := ?s1, sr_pending := Some (4, ''192.0.2.9:5353'', None)\<rparr>"
  let ?r2 = "\<lparr>sr_st = ?s2, sr_pending = Some (4, ''192.0.2.9:5353'', Some (FwdSock 0)),
             sr_stages = [Running]\<rparr>"
  have q: "relay_reach True (\<lambda>a. a) ?q0 ?q1"
    by (rule relay_arrive [OF relay_start])
  have rd: "udpSocksLocal_read (\<lambda>a. a) (sr_st ?r0) = Some (?s1, Some (4, ''192.0.2.9:5353'', None))"
    using first_read_socks by (simp add: socksRun_init_def)
  have r1: "socks_reach (\<lambda>a. a) ?r0 ?r1"
    by (rule socks_read [OF socks_start _ rd]) (simp add: socksRun_init_def)
  have cr: "udpSocksLocal_create (\<lambda>a. a) (Inr new_socket) (sr_st ?r1) ''192.0.2.9:5353''
      = Inr (?s2, Some (FwdSock 0))"
    using first_create_socks by simp
  have pe: "sr_pending ?r1 = Some (4, ''192.0.2.9:5353'', None)" by simp
  from socks_create [OF r1 pe cr]
  have r: "socks_reach (\<lambda>a. a) ?r0 ?r2"
    by (simp add: socksRun_init_def)
  note th = one_session_per_peer [where flag = True and String = "\<lambda>a. a"
      and c = four_byte_listener and timeout = 300 and now = 0 and st = ?q1 and r = ?r2]
  from th q have "live_chs ?q1 ''192.0.2.9:5353''
      = (case qr_m ?q1 ''192.0.2.9:5353'' of None \<Rightarrow> [] | Some ch \<Rightarrow> [ch])" by blast
  then have a: "live_chs ?q1 ''192.0.2.9:5353'' = [0]"
    by (simp add: first_arrival_remote)
  from th r have "live_srcs (\<lambda>a. a) ?r2 ''192.0.2.9:5353''
      = (case natmap_m (sl_nm (sr_st ?r2)) ''192.0.2.9:5353'' of None \<Rightarrow> [] | Some pc \<Rightarrow> [pc])"
    by blast
  then have b: "live_srcs (\<lambda>a. a) ?r2 ''192.0.2.9:5353'' = [FwdSock 0]"
    by simp
  show ?thesis using a b by blast
qed

text \<open>
  In \<^verbatim>\<open>udpSocksLocal\<close> the lookup (\<^verbatim>\<open>Get\<close>, under the read lock) and the insertion (\<^verbatim>\<open>Set\<close>
  inside \<^verbatim>\<open>Add\<close>, under the write lock) are two critical sections: the history of the
  table's mutex after the first datagram of a peer.
\<close>

theorem udpSocksLocal_check_then_insert:
  "map_option (map_sum id (\<lambda>st. natmap_mu (sl_nm st)))
      (udpSocksLocal_iter (\<lambda>a. a) ''198.51.100.1:8388'' (Inr new_socket)
         (udpSocksLocal_init four_byte_listener 300 0))
     = Some (Inr [RLock, Lookup ''192.0.2.9:5353'', RUnlock,
                  Lock, Insert ''192.0.2.9:5353'', Unlock])
   \<and> \<not> checked_inserts ''192.0.2.9:5353'' False
         [RLock, Lookup ''192.0.2.9:5353'', RUnlock, Lock, Insert ''192.0.2.9:5353'', Unlock]"
  using first_read_socks first_create_socks
  by (simp add: udpSocksLocal_iter_def udpSocksLocal_write_def slice_def ref_WriteTo_def
      WriteTo_def new_socket_def)

lemma chans_sound_locked:
  assumes "chans_sound st"
  shows "chans_sound (snd (relay_locked flag String listen st raddr))"
proof (cases "qr_m st (String raddr)")
  case (Some ch)
  then show ?thesis using assms by (simp add: relay_locked_present chans_sound_def)
next
  case None
  show ?thesis
  proof (cases listen)
    case (Inl e)
    then show ?thesis using assms None by (simp add: relay_locked_def Let_def chans_sound_def)
  next
    case (Inr newpc)
    let ?st' = "snd (relay_locked flag String listen st raddr)"
    from assms have old: "\<And>k ch. qr_m st k = Some ch \<Longrightarrow>
        ch < length (qr_chans st) \<and> \<not> ch_closed (qr_chans st ! ch) \<and> ch_cap (qr_chans st ! ch) = 1"
      and inj: "\<And>k k' ch. qr_m st k = Some ch \<Longrightarrow> qr_m st k' = Some ch \<Longrightarrow> k = k'"
      by (auto simp: chans_sound_def)
    have m': "qr_m ?st' = (qr_m st)(String raddr \<mapsto> length (qr_chans st))"
      and c': "qr_chans ?st' = qr_chans st @ [make_chan 1]"
      using None Inr by (simp_all add: relay_locked_new)
    have A: "ch < length (qr_chans ?st') \<and> \<not> ch_closed (qr_chans ?st' ! ch)
               \<and> ch_cap (qr_chans ?st' ! ch) = 1" if "qr_m ?st' k = Some ch" for k ch
    proof (cases "k = String raddr")
      case True
      with that have "ch = length (qr_chans st)" by (simp add: m')
      then show ?thesis by (simp add: c' make_chan_def)
    next
      case False
      with that have "qr_m st k = Some ch" by (simp add: m')
      from old [OF this] show ?thesis by (simp add: c' nth_append)
    qed
    have B: "k = k'" if "qr_m ?st' k = Some ch" and "qr_m ?st' k' = Some ch" for k k' ch
    proof (cases "k = String raddr")
      case True
      with that(1) have ch: "ch = length (qr_chans st)" by (simp add: m')
      show ?thesis
      proof (rule ccontr)
        assume "k \<noteq> k'"
        with True that(2) have "qr_m st k' = Some ch" by (simp add: m')
        from old [OF this] ch show False by simp
      qed
    next
      case False
      with that(1) have mk: "qr_m st k = Some ch" by (simp add: m')
      from old [OF mk] have lt: "ch < length (qr_chans st)" by simp
      have "k' \<noteq> String raddr"
      proof
        assume "k' = String raddr"
        with that(2) have "ch = length (qr_chans st)" by (simp add: m')
        with lt show False by simp
      qed
      with that(2) have "qr_m st k' = Some ch" by (simp add: m')
      with mk show ?thesis by (rule inj)
    qed
    show ?thesis unfolding chans_sound_def using A B by blast
  qed
qed

lemma chans_sound_close:
  "chans_sound st \<Longrightarrow> chans_sound (teardown_close i st)"
  by (simp add: chans_sound_def teardown_close_def Let_def)

lemma chans_sound_unmap:
  assumes "chans_sound st" and un: "teardown_unmap i st = Inr st'"
  shows "chans_sound st'"
proof -
  let ?k = "ss_key (qr_sessions st ! i)"
  from assms(1) have old: "\<And>k ch. qr_m st k = Some ch \<Longrightarrow>
        ch < length (qr_chans st) \<and> \<not> ch_closed (qr_chans st ! ch) \<and> ch_cap (qr_chans st ! ch) = 1"
      and inj: "\<And>k k' ch. qr_m st k = Some ch \<Longrightarrow> qr_m st k' = Some ch \<Longrightarrow> k = k'"
      by (auto simp: chans_sound_def)
  have m': "qr_m st' = (qr_m st)(?k := None)" by (rule teardown_unmap_Inr(1) [OF un])
  have ch': "qr_chans st' = (case qr_m st ?k of None \<Rightarrow> qr_chans st
       | Some ch \<Rightarrow> (qr_chans st)[ch := (qr_chans st ! ch)\<lparr>ch_closed := True\<rparr>])"
    using un by (auto simp: teardown_unmap_def Let_def split: option.splits if_splits)
  have A: "ch < length (qr_chans st') \<and> \<not> ch_closed (qr_chans st' ! ch)
            \<and> ch_cap (qr_chans st' ! ch) = 1" if a: "qr_m st' k = Some ch" for k ch
  proof -
    from a have k: "k \<noteq> ?k" and mk: "qr_m st k = Some ch" by (auto simp: m' split: if_splits)
    have "qr_chans st' ! ch = qr_chans st ! ch \<and> length (qr_chans st') = length (qr_chans st)"
    proof (cases "qr_m st ?k")
      case None
      then show ?thesis by (simp add: ch')
    next
      case (Some c)
      with inj [OF mk, of ?k] k have "c \<noteq> ch" by auto
      then show ?thesis using Some by (simp add: ch')
    qed
    with old [OF mk] show ?thesis by simp
  qed
  have B: "k = k'" if "qr_m st' k = Some ch" and "qr_m st' k' = Some ch" for k k' ch
  proof -
    from that have "qr_m st k = Some ch" and "qr_m st k' = Some ch"
      by (auto simp: m' split: if_splits)
    then show ?thesis by (rule inj)
  qed
  show ?thesis unfolding chans_sound_def using A B by blast
qed

lemma chans_sound_other:
  assumes "chans_sound st" and "qr_m st' = qr_m st"
    and c: "map ch_closed (qr_chans st') = map ch_closed (qr_chans st)"
    and p: "map ch_cap (qr_chans st') = map ch_cap (qr_chans st)"
  shows "chans_sound st'"
proof -
  have len: "length (qr_chans st') = length (qr_chans st)"
    using c by (metis length_map)
  have "ch_closed (qr_chans st' ! ch) = ch_closed (qr_chans st ! ch)
        \<and> ch_cap (qr_chans st' ! ch) = ch_cap (qr_chans st ! ch)"
    if "ch < length (qr_chans st)" for ch
    using that len c p by (metis nth_map)
  then show ?thesis using assms(1,2) len
    by (auto simp: chans_sound_def)
qed

lemma relay_reach_chans_sound:
  assumes "relay_reach flag String st0 st" and "chans_sound st0"
  shows "chans_sound st"
  using assms
proof (induction rule: relay_reach.induct)
  case relay_start
  then show ?case by simp
next
  case (relay_arrive st listen raddr)
  then show ?case by (simp add: chans_sound_locked)
next
  case (relay_close st i)
  then show ?case by (simp add: chans_sound_close)
next
  case (relay_unmap st i st')
  then show ?case using chans_sound_unmap by blast
next
  case (relay_other st st')
  then show ?case using chans_sound_other by blast
qed

lemma chans_sound_init: "chans_sound (queueRelay_init c timeout now)"
  by (simp add: chans_sound_def queueRelay_init_def)

subsection \<open>A full inbox\<close>

lemma relay_select_full:
  assumes "ch_cap (qr_chans st ! i) = 1" and "ch_queue (qr_chans st ! i) = [old]"
    and "\<not> ch_closed (qr_chans st ! i)" and "n \<le> length buf"
  shows "relay_select st (Some i) buf n = Inr (st\<lparr>qr_pool := buf # qr_pool st\<rparr>)"
  using assms by (simp add: relay_select_def select_send_def slice_def bufPool_Put_def)

lemma inbox_full_open:
  assumes "chans_sound st" and "inbox_full st k i old"
  shows "ch_cap (qr_chans st ! i) = 1 \<and> ch_queue (qr_chans st ! i) = [old]
           \<and> \<not> ch_closed (qr_chans st ! i)"
  using assms by (auto simp: chans_sound_def inbox_full_def)

lemma udpLocal_recv_full:
  assumes get: "bufPool_Get (qr_pool st) = (pbuf, pool')"
    and len: "length tgt \<le> length pbuf"
    and rd: "ReadFrom (qr_c st) (qr_now st) (drop (length tgt) (copy_at pbuf 0 tgt))
              = Some (ReadOk n raddr, c', now', rest')"
    and full: "inbox_full st (String raddr) i old"
  shows "udpLocal_recv String tgt listen st =
     Some (Inr (st\<lparr>qr_c := c', qr_now := now', qr_pool := pool',
                   qr_mu := qr_mu st @ [Lock, Lookup (String raddr), Unlock]\<rparr>,
                Some (Some i, take (length tgt) (copy_at pbuf 0 tgt) @ rest', length tgt + n)))"
proof -
  let ?buf = "copy_at pbuf 0 tgt"
  have lb: "length ?buf = length pbuf" by (simp add: length_copy_at)
  have sl: "slice ?buf (length tgt) (length ?buf) = Inr (drop (length tgt) ?buf)"
    using len lb by (simp add: slice_def)
  let ?st1 = "st\<lparr>qr_c := c', qr_now := now', qr_pool := pool'\<rparr>"
  have lk: "udpLocal_locked String listen ?st1 raddr
      = (Some i, ?st1\<lparr>qr_mu := qr_mu ?st1 @ [Lock, Lookup (String raddr), Unlock]\<rparr>)"
    unfolding udpLocal_locked_def using full
    by (intro relay_locked_present) (simp add: inbox_full_def)
  show ?thesis
    using get sl rd lk by (simp add: udpLocal_recv_def Let_def)
qed

lemma udpRemote_recv_full:
  assumes get: "bufPool_Get (qr_pool st) = (buf, pool')"
    and rd: "ReadFrom (qr_c st) (qr_now st) buf = Some (ReadOk n raddr, c', now', buf')"
    and full: "inbox_full st (String raddr) i old"
  shows "udpRemote_recv String listen st =
     Some (st\<lparr>qr_c := c', qr_now := now', qr_pool := pool',
              qr_mu := qr_mu st @ [Lock, Lookup (String raddr), Unlock]\<rparr>,
           Some (Some i, buf', n))"
proof -
  let ?st1 = "st\<lparr>qr_c := c', qr_now := now', qr_pool := pool'\<rparr>"
  have lk: "udpRemote_locked String listen ?st1 raddr
      = (Some i, ?st1\<lparr>qr_mu := qr_mu ?st1 @ [Lock, Lookup (String raddr), Unlock]\<rparr>)"
    unfolding udpRemote_locked_def using full
    by (intro relay_locked_present) (simp add: inbox_full_def)
  show ?thesis
    using get rd lk by (simp add: udpRemote_recv_def)
qed

text \<open>
  When the \<^verbatim>\<open>select\<close> runs in a state that the goroutines can reach and in which the
  channel it sends on is still the full inbox of a peer in the table, the datagram is
  dropped: the buffer goes back to the pool and the pending datagram stays the only one
  queued.
\<close>

lemma relay_select_reach_full:
  assumes reach: "relay_reach flag String (queueRelay_init c timeout now) st"
    and full: "inbox_full st k i old" and n: "n \<le> length buf"
  shows "relay_select st (Some i) buf n = Inr (st\<lparr>qr_pool := buf # qr_pool st\<rparr>)"
proof -
  have "chans_sound st"
    by (rule relay_reach_chans_sound [OF reach chans_sound_init])
  from inbox_full_open [OF this full] n show ?thesis
    by (intro relay_select_full [where old = old]) simp_all
qed

lemma busy_reach:
  "relay_reach flag (\<lambda>a. a) (queueRelay_init four_byte_listener 300 0) (busy_relay flag)"
proof -
  let ?q0 = "queueRelay_init four_byte_listener 300 0"
  let ?q1 = "snd (relay_locked flag (\<lambda>a. a) (Inr new_socket) ?q0 ''192.0.2.9:5353'')"
  have q1: "relay_reach flag (\<lambda>a. a) ?q0 ?q1"
    by (rule relay_arrive [OF relay_start])
  show ?thesis
    by (rule relay_other [OF q1])
       (simp_all add: relay_locked_def queueRelay_init_def Let_def busy_relay_def make_chan_def)
qed

lemma busy_get: "bufPool_Get (qr_pool (busy_relay flag)) = (replicate udpBufSize 0, [])"
  by (simp add: busy_relay_def bufPool_Get_def)

lemma busy_full:
  "inbox_full (busy_relay flag) ((\<lambda>a. a) ''192.0.2.9:5353'') 0 (replicate udpBufSize 0x62, 2)"
  by (simp add: busy_relay_def inbox_full_def)

lemma busy_read_remote:
  "ReadFrom (qr_c (busy_relay flag)) (qr_now (busy_relay flag)) (replicate udpBufSize 0)
   = Some (ReadOk 1 ''192.0.2.9:5353'',
       qr_c (busy_relay flag)\<lparr>inbound := [], calls := [ReadFromCall 4]\<rparr>,
       5, [0x63] @ replicate (udpBufSize - 1) 0)"
  by (simp add: busy_relay_def ReadFrom_def Let_def stored_def udpBufSize_def)

lemma busy_read_local:
  "ReadFrom (qr_c (busy_relay flag)) (qr_now (busy_relay flag))
     (drop (length [1 :: byte, 203, 0, 113, 5, 0x23, 0x28])
        (copy_at (replicate udpBufSize 0) 0 [1, 203, 0, 113, 5, 0x23, 0x28]))
   = Some (ReadOk 1 ''192.0.2.9:5353'',
       qr_c (busy_relay flag)\<lparr>inbound := [], calls := [ReadFromCall 4]\<rparr>,
       5, [0x63] @ replicate (udpBufSize - 8) 0)"
  by (simp add: busy_relay_def ReadFrom_def Let_def stored_def udpBufSize_def copy_at_def)

lemma busy_unlocked_eq:
  "(busy_relay flag)\<lparr>qr_c := qr_c (busy_relay flag)\<lparr>inbound := [], calls := [ReadFromCall 4]\<rparr>,
      qr_now := 5, qr_pool := [],
      qr_mu := qr_mu (busy_relay flag) @ [Lock, Lookup ((\<lambda>a. a) ''192.0.2.9:5353''), Unlock]\<rparr>
   = busy_unlocked flag"
  by (simp add: busy_relay_def busy_unlocked_def)

lemma busy_recv_local:
  "udpLocal_recv (\<lambda>a. a) [1, 203, 0, 113, 5, 0x23, 0x28] (Inr new_socket) (busy_relay False)
   = Some (Inr (busy_unlocked False,
        Some (Some 0, [1, 203, 0, 113, 5, 0x23, 0x28, 0x63] @ replicate (udpBufSize - 8) 0, 8)))"
proof -
  have l: "length [1 :: byte, 203, 0, 113, 5, 0x23, 0x28]
      \<le> length (replicate udpBufSize (0 :: byte))"
    by (simp add: udpBufSize_def)
  from udpLocal_recv_full [where String = "\<lambda>a. a" and listen = "Inr new_socket",
      OF busy_get [of False] l busy_read_local [of False] busy_full [of False]]
  show ?thesis
    by (simp add: busy_unlocked_eq copy_at_def udpBufSize_def)
qed

lemma busy_recv_remote:
  "udpRemote_recv (\<lambda>a. a) (Inr new_socket) (busy_relay True)
   = Some (busy_unlocked True, Some (Some 0, [0x63] @ replicate (udpBufSize - 1) 0, 1))"
proof -
  from udpRemote_recv_full [where String = "\<lambda>a. a" and listen = "Inr new_socket",
      OF busy_get [of True] busy_read_remote [of True] busy_full [of True]]
  show ?thesis
    by (simp add: busy_unlocked_eq)
qed

lemma busy_unlocked_reach:
  "relay_reach flag (\<lambda>a. a) (queueRelay_init four_byte_listener 300 0) (busy_unlocked flag)"
proof -
  let ?q1 = "snd (relay_locked flag (\<lambda>a. a) (Inr new_socket) (busy_relay flag)
                    ''192.0.2.9:5353'')"
  have q1: "relay_reach flag (\<lambda>a. a) (queueRelay_init four_byte_listener 300 0) ?q1"
    by (rule relay_arrive [OF busy_reach])
  show ?thesis
    by (rule relay_other [OF q1])
       (simp_all add: relay_locked_def Let_def busy_relay_def busy_unlocked_def)
qed

lemma busy_unlocked_full:
  "inbox_full (busy_unlocked flag) ''192.0.2.9:5353'' 0 (replicate udpBufSize 0x62, 2)"
  by (simp add: busy_unlocked_def inbox_full_def)

lemma busy_teardown:
  "teardown_unmap 0 (teardown_close 0 (busy_unlocked flag)) = Inr (busy_torn flag)"
  by (simp add: teardown_unmap_def teardown_close_def Let_def busy_unlocked_def busy_torn_def
      Close_def new_socket_def)

lemma busy_torn_reach:
  "relay_reach flag (\<lambda>a. a) (queueRelay_init four_byte_listener 300 0) (busy_torn flag)"
proof -
  have c: "relay_reach flag (\<lambda>a. a) (queueRelay_init four_byte_listener 300 0)
      (teardown_close 0 (busy_unlocked flag))"
    by (rule relay_close [OF busy_unlocked_reach]) (simp_all add: busy_unlocked_def)
  show ?thesis
    by (rule relay_unmap [OF c _ _ busy_teardown])
       (simp_all add: teardown_close_def Let_def busy_unlocked_def)
qed

lemma busy_torn_select:
  "n \<le> length buf \<Longrightarrow> relay_select (busy_torn flag) (Some 0) buf n = Inl SendOnClosedChannel"
  by (simp add: relay_select_def select_send_def slice_def busy_torn_def)

text \<open>
  C8. A datagram that arrives for a peer whose inbox holds a datagram is not dropped in
  every run. Both listeners send after \<^verbatim>\<open>lock.Unlock()\<close>; when the return path of the
  peer's session ends in between, it closes the channel the listener still holds, and the
  \<^verbatim>\<open>select\<close> panics with a send on a closed channel instead of taking its \<^verbatim>\<open>default\<close>
  branch. Here, for \<^verbatim>\<open>udpLocal\<close> and for \<^verbatim>\<open>udpRemote\<close>: the listener is in a state it can
  reach in which the inbox of peer \<^verbatim>\<open>192.0.2.9:5353\<close> is full; it reads a second datagram
  of that peer and leaves its critical section with the peer's channel, the inbox still
  full; the return path of the session closes the socket and, under the lock, closes the
  channel and deletes the entry, which is again a state the goroutines can reach; the
  pending datagram is still the only one queued; the listener's \<^verbatim>\<open>select\<close> then panics, and
  the buffer of the new datagram is not put back.
\<close>

theorem full_inbox_send_on_closed_channel:
  "relay_reach False (\<lambda>a. a) (queueRelay_init four_byte_listener 300 0) (busy_relay False)
   \<and> inbox_full (busy_relay False) ''192.0.2.9:5353'' 0 (replicate udpBufSize 0x62, 2)
   \<and> udpLocal_recv (\<lambda>a. a) [1, 203, 0, 113, 5, 0x23, 0x28] (Inr new_socket) (busy_relay False)
       = Some (Inr (busy_unlocked False,
           Some (Some 0, [1, 203, 0, 113, 5, 0x23, 0x28, 0x63] @ replicate (udpBufSize - 8) 0, 8)))
   \<and> inbox_full (busy_unlocked False) ''192.0.2.9:5353'' 0 (replicate udpBufSize 0x62, 2)
   \<and> teardown_unmap 0 (teardown_close 0 (busy_unlocked False)) = Inr (busy_torn False)
   \<and> relay_reach False (\<lambda>a. a) (queueRelay_init four_byte_listener 300 0) (busy_torn False)
   \<and> ch_queue (qr_chans (busy_torn False) ! 0) = [(replicate udpBufSize 0x62, 2)]
   \<and> relay_select (busy_torn False) (Some 0)
        ([1, 203, 0, 113, 5, 0x23, 0x28, 0x63] @ replicate (udpBufSize - 8) 0) 8
       = Inl SendOnClosedChannel
   \<and> relay_reach True (\<lambda>a. a) (queueRelay_init four_byte_listener 300 0) (busy_relay True)
   \<and> inbox_full (busy_relay True) ''192.0.2.9:5353'' 0 (replicate udpBufSize 0x62, 2)
   \<and> udpRemote_recv (\<lambda>a. a) (Inr new_socket) (busy_relay True)
       = Some (busy_unlocked True, Some (Some 0, [0x63] @ replicate (udpBufSize - 1) 0, 1))
   \<and> inbox_full (busy_unlocked True) ''192.0.2.9:5353'' 0 (replicate udpBufSize 0x62, 2)
   \<and> teardown_unmap 0 (teardown_close 0 (busy_unlocked True)) = Inr (busy_torn True)
   \<and> relay_reach True (\<lambda>a. a) (queueRelay_init four_byte_listener 300 0) (busy_torn True)
   \<and> ch_queue (qr_chans (busy_torn True) ! 0) = [(replicate udpBufSize 0x62, 2)]
   \<and> relay_select (busy_torn True) (Some 0) ([0x63] @ replicate (udpBufSize - 1) 0) 1
       = Inl SendOnClosedChannel"
proof -
  have q: "ch_queue (qr_chans (busy_torn flag) ! 0) = [(replicate udpBufSize 0x62, 2)]" for flag
    by (simp add: busy_torn_def)
  have sl: "relay_select (busy_torn False) (Some 0)
        ([1, 203, 0, 113, 5, 0x23, 0x28, 0x63] @ replicate (udpBufSize - 8) 0) 8
       = Inl SendOnClosedChannel"
    by (rule busy_torn_select) simp
  have sr: "relay_select (busy_torn True) (Some 0) ([0x63] @ replicate (udpBufSize - 1) 0) 1
       = Inl SendOnClosedChannel"
    by (rule busy_torn_select) simp
  from busy_full [of False] busy_full [of True]
  have f: "inbox_full (busy_relay False) ''192.0.2.9:5353'' 0 (replicate udpBufSize 0x62, 2)"
    "inbox_full (busy_relay True) ''192.0.2.9:5353'' 0 (replicate udpBufSize 0x62, 2)"
    by simp_all
  show ?thesis
    by (intro conjI busy_reach f busy_recv_local busy_recv_remote busy_unlocked_full
        busy_teardown busy_torn_reach q sl sr)
qed

end
